theory Spec2Isabelle
  imports Complex_Main
begin

section \<open>JavaScript values used by the timeline\<close>

text \<open>
  A JavaScript number is either \<open>NaN\<close> or a finite value. Finite values are modelled by
  the real number they denote: the numbers of this program are list lengths, page counts,
  time values of \<open>Date\<close> (integers of magnitude at most 8.64e15) and token identifiers,
  and only their sum, their difference's sign and their being \<open>NaN\<close> are ever observed.
\<close>

datatype jsnum = NaN | Num real

definition isNaN :: "jsnum \<Rightarrow> bool" where
  "isNaN v = (case v of NaN \<Rightarrow> True | Num _ \<Rightarrow> False)"

text \<open>
  \<open>x - y\<close> on numbers: \<open>NaN\<close> as soon as one operand is. The difference is the
  exact one; the code rounds it to the nearest double, which keeps its sign and its being
  zero.
\<close>

definition js_minus :: "jsnum \<Rightarrow> jsnum \<Rightarrow> jsnum" where
  "js_minus x y = (case x of NaN \<Rightarrow> NaN | Num a \<Rightarrow> (case y of NaN \<Rightarrow> NaN | Num b \<Rightarrow> Num (a - b)))"

text \<open>\<open>x !== y\<close> on numbers: \<open>NaN\<close> differs from everything, itself included.\<close>

definition js_strict_neq :: "jsnum \<Rightarrow> jsnum \<Rightarrow> bool" where
  "js_strict_neq x y = (case x of NaN \<Rightarrow> True | Num a \<Rightarrow> (case y of NaN \<Rightarrow> True | Num b \<Rightarrow> a \<noteq> b))"

text \<open>
  The elements of the array literal in \<open>activeFilterCount\<close> are strings, numbers or
  booleans: \<open>filters.search && 1\<close> is the empty string or \<open>1\<close>,
  \<open>filters.verifiedOnly && 1\<close> is \<open>false\<close> or \<open>1\<close>.
\<close>

datatype jsval = JStr string | JNum jsnum | JBool bool

text \<open>\<open>Boolean(v)\<close>: the empty string, \<open>0\<close>, \<open>NaN\<close> and \<open>false\<close> are falsy.\<close>

fun truthy :: "jsval \<Rightarrow> bool" where
  "truthy (JStr s) = (s \<noteq> [])"
| "truthy (JNum NaN) = False"
| "truthy (JNum (Num r)) = (r \<noteq> 0)"
| "truthy (JBool b) = b"

text \<open>\<open>a && b\<close>: the left operand when it is falsy, the right one otherwise.\<close>

definition js_and :: "jsval \<Rightarrow> jsval \<Rightarrow> jsval" where
  "js_and a b = (if truthy a then b else a)"

text \<open>\<open>x + y\<close> on numbers: \<open>NaN\<close> as soon as one operand is.\<close>

definition js_add :: "jsnum \<Rightarrow> jsnum \<Rightarrow> jsnum" where
  "js_add x y = (case x of NaN \<Rightarrow> NaN | Num a \<Rightarrow> (case y of NaN \<Rightarrow> NaN | Num b \<Rightarrow> Num (a + b)))"

text \<open>
  \<open>(a as number) + (b as number)\<close>. The casts exist only for the type checker; at run
  time \<open>+\<close> adds two numbers and does something else (concatenation, coercion) when an
  operand is a string or a boolean. The model returns \<open>None\<close> for every such pair, so a
  result \<open>Some (JNum n)\<close> says that only numbers were ever added.
\<close>

fun js_plus :: "jsval \<Rightarrow> jsval \<Rightarrow> jsval option" where
  "js_plus (JNum x) (JNum y) = Some (JNum (js_add x y))"
| "js_plus _ _ = None"

text \<open>\<open>xs.reduce(f, init)\<close> for a callback that may leave the model.\<close>

fun reduce :: "(jsval \<Rightarrow> jsval \<Rightarrow> jsval option) \<Rightarrow> jsval \<Rightarrow> jsval list \<Rightarrow> jsval option" where
  "reduce f acc [] = Some acc"
| "reduce f acc (x # xs) = (case f acc x of None \<Rightarrow> None | Some acc' \<Rightarrow> reduce f acc' xs)"

text \<open>\<open>xs.length\<close> as a number.\<close>

definition js_length :: "'a list \<Rightarrow> jsnum" where
  "js_length xs = Num (real (length xs))"

section \<open>Built-ins of the host\<close>

text \<open>
  The program calls four built-ins whose results depend on the host (its date grammar,
  its locale, its Unicode tables). They are parameters of the model:
  \<^item> \<open>Date_parse s\<close> is \<open>Date.parse(s)\<close> for a string \<open>s\<close>: a time value or \<open>NaN\<close>.
    \<open>new Date(s).getTime()\<close> parses \<open>s\<close> in exactly the same manner;
  \<^item> \<open>Number_of_string s\<close> is \<open>Number(s)\<close> for a string \<open>s\<close>;
  \<^item> \<open>localeCompare s t\<close> is \<open>s.localeCompare(t)\<close>, a finite number;
  \<^item> \<open>toLowerCase s\<close> is \<open>s.toLowerCase()\<close>.
\<close>

record js_runtime =
  Date_parse :: "string \<Rightarrow> jsnum"
  Number_of_string :: "string \<Rightarrow> jsnum"
  localeCompare :: "string \<Rightarrow> string \<Rightarrow> real"
  toLowerCase :: "string \<Rightarrow> string"

text \<open>Truthiness of an optional string: \<open>undefined\<close> and the empty string are falsy.\<close>

definition str_truthy :: "string option \<Rightarrow> bool" where
  "str_truthy v = (case v of None \<Rightarrow> False | Some s \<Rightarrow> s \<noteq> [])"

text \<open>\<open>Date.parse(v)\<close>: the argument is converted to a string first.\<close>

definition Date_parse_of :: "js_runtime \<Rightarrow> string option \<Rightarrow> jsnum" where
  "Date_parse_of rt v = Date_parse rt (case v of None \<Rightarrow> ''undefined'' | Some s \<Rightarrow> s)"

text \<open>\<open>new Date(v).getTime()\<close>: \<open>NaN\<close> for \<open>undefined\<close>, the parsed time for a string.\<close>

definition new_Date_getTime :: "js_runtime \<Rightarrow> string option \<Rightarrow> jsnum" where
  "new_Date_getTime rt v = (case v of None \<Rightarrow> NaN | Some s \<Rightarrow> Date_parse rt s)"

text \<open>An identifier is a string or a number.\<close>

datatype jsid = IdStr string | IdNum jsnum

definition Number :: "js_runtime \<Rightarrow> jsid \<Rightarrow> jsnum" where
  "Number rt v = (case v of IdStr s \<Rightarrow> Number_of_string rt s | IdNum n \<Rightarrow> n)"

text \<open>\<open>a ?? b\<close>: \<open>b\<close> when \<open>a\<close> is \<open>undefined\<close> or \<open>null\<close>.\<close>

definition nullish :: "'a option \<Rightarrow> 'a \<Rightarrow> 'a" where
  "nullish a b = (case a of None \<Rightarrow> b | Some v \<Rightarrow> v)"

subsection \<open>Strings\<close>

text \<open>\<open>s.includes(t)\<close>: \<open>t\<close> occurs in \<open>s\<close> as a contiguous substring.\<close>

fun startsWith :: "string \<Rightarrow> string \<Rightarrow> bool" where
  "startsWith s [] = True"
| "startsWith [] (c # t) = False"
| "startsWith (a # s) (c # t) = (a = c \<and> startsWith s t)"

fun str_includes :: "string \<Rightarrow> string \<Rightarrow> bool" where
  "str_includes [] t = startsWith [] t"
| "str_includes (a # s) t = (startsWith (a # s) t \<or> str_includes s t)"

text \<open>
  The class \<open>\s\<close> on characters below 256: tab, line feed, vertical tab, form feed,
  carriage return, space and the no-break space.
\<close>

definition is_space :: "char \<Rightarrow> bool" where
  "is_space c = ((of_char c :: nat) \<in> {9, 10, 11, 12, 13, 32, 160})"

text \<open>\<open>s.replace(/\s+/g, "-")\<close>: every maximal run of white space becomes one hyphen.\<close>

function replace_spaces :: "string \<Rightarrow> string" where
  "replace_spaces [] = []"
| "replace_spaces (c # cs) =
     (if is_space c then CHR ''-'' # replace_spaces (dropWhile is_space cs)
      else c # replace_spaces cs)"
  by pat_completeness auto
termination
  by (relation "measure length") (auto simp: le_imp_less_Suc length_dropWhile_le)

subsection \<open>Arrays\<close>

text \<open>
  \<open>xs.slice(0, stop)\<close> for an integer \<open>stop\<close>: a negative \<open>stop\<close> counts from the end of
  the array, and the result never reads past either end.
\<close>

definition slice0 :: "'a list \<Rightarrow> int \<Rightarrow> 'a list" where
  "slice0 xs stop =
     (let len = int (length xs);
          final = (if stop < 0 then max (len + stop) 0 else min stop len)
      in take (nat final) xs)"

text \<open>
  \<open>xs.sort(comparefn)\<close>. The comparator's result is read as the standard's
  \<open>SortCompare\<close> reads it: \<open>NaN\<close> counts as \<open>+0\<close>. The sort is stable. For a
  comparator that is a consistent ordering, every conforming host returns the list below;
  for an inconsistent one the standard leaves the order to the host, and the insertion
  sort below is one permitted behaviour.
\<close>

definition SortCompare :: "('a \<Rightarrow> 'a \<Rightarrow> jsnum) \<Rightarrow> 'a \<Rightarrow> 'a \<Rightarrow> real" where
  "SortCompare comparefn x y = (case comparefn x y of NaN \<Rightarrow> 0 | Num v \<Rightarrow> v)"

fun sort_insert :: "('a \<Rightarrow> 'a \<Rightarrow> jsnum) \<Rightarrow> 'a \<Rightarrow> 'a list \<Rightarrow> 'a list" where
  "sort_insert comparefn x [] = [x]"
| "sort_insert comparefn x (y # ys) =
     (if SortCompare comparefn x y \<le> 0 then x # y # ys else y # sort_insert comparefn x ys)"

fun js_sort :: "('a \<Rightarrow> 'a \<Rightarrow> jsnum) \<Rightarrow> 'a list \<Rightarrow> 'a list" where
  "js_sort comparefn [] = []"
| "js_sort comparefn (x # xs) = sort_insert comparefn x (js_sort comparefn xs)"

section \<open>Assets\<close>

text \<open>
  \<open>AssetIP\<close> is declared outside the two files; the record has the fields the two
  files read, with the types their uses require: the text fields are strings (they
  receive \<open>toLowerCase\<close> and \<open>localeCompare\<close>), the two dates are optional strings
  (\<open>sortAssetsDesc\<close> tests them for presence before \<open>Date.parse\<close>), the two
  identifiers are optional (\<open>a.tokenId ?? a.id ?? 0\<close>). The field \<open>id\<close> is named
  \<open>asset_id\<close> and the field \<open>type\<close> is named \<open>asset_type\<close>.
\<close>

record creator =
  name :: string
  verified :: bool

record asset =
  asset_id :: "jsid option"
  tokenId :: "jsid option"
  title :: string
  description :: string
  asset_type :: string
  tags :: string
  licenseType :: string
  creator :: creator
  registrationDate :: "string option"
  timestamp :: "string option"

subsection \<open>The descending timeline comparator\<close>

definition sortAssetsDesc :: "js_runtime \<Rightarrow> asset \<Rightarrow> asset \<Rightarrow> jsnum" where
  "sortAssetsDesc rt a b =
     (let aTime =
            (if str_truthy (registrationDate a) \<and> \<not> isNaN (Date_parse_of rt (registrationDate a))
             then new_Date_getTime rt (registrationDate a)
             else if str_truthy (timestamp a) \<and> \<not> isNaN (Date_parse_of rt (timestamp a))
             then new_Date_getTime rt (timestamp a)
             else Num 0);
          bTime =
            (if str_truthy (registrationDate b) \<and> \<not> isNaN (Date_parse_of rt (registrationDate b))
             then new_Date_getTime rt (registrationDate b)
             else if str_truthy (timestamp b) \<and> \<not> isNaN (Date_parse_of rt (timestamp b))
             then new_Date_getTime rt (timestamp b)
             else Num 0)
      in if js_strict_neq bTime aTime then js_minus bTime aTime
         else
           (let aId = Number rt (nullish (tokenId a) (nullish (asset_id a) (IdNum (Num 0))));
                bId = Number rt (nullish (tokenId b) (nullish (asset_id b) (IdNum (Num 0))))
            in js_minus bId aId))"

text \<open>
  The comparator as the specification words it. A date is usable when it is present (not
  \<open>undefined\<close>, not the empty string) and parses to a time value.
\<close>

definition parsed_time :: "js_runtime \<Rightarrow> string option \<Rightarrow> real option" where
  "parsed_time rt d =
     (case d of
        None \<Rightarrow> None
      | Some s \<Rightarrow> (if s = [] then None else (case Date_parse rt s of NaN \<Rightarrow> None | Num t \<Rightarrow> Some t)))"

definition effective_time :: "js_runtime \<Rightarrow> asset \<Rightarrow> real" where
  "effective_time rt a =
     (case parsed_time rt (registrationDate a) of
        Some t \<Rightarrow> t
      | None \<Rightarrow> (case parsed_time rt (timestamp a) of Some t \<Rightarrow> t | None \<Rightarrow> 0))"

definition numeric_id :: "js_runtime \<Rightarrow> asset \<Rightarrow> jsnum" where
  "numeric_id rt a =
     (case tokenId a of
        Some t \<Rightarrow> Number rt t
      | None \<Rightarrow> (case asset_id a of Some i \<Rightarrow> Number rt i | None \<Rightarrow> Num 0))"

section \<open>The filter configuration\<close>

text \<open>
  \<open>FilterState\<close> is declared in the filter drawer; its fields and their types are
  those of the \<open>defaultFilters\<close> literal of \<open>timeline.tsx\<close>.
\<close>

record FilterState =
  search :: string
  assetTypes :: "string list"
  licenses :: "string list"
  verifiedOnly :: bool
  dateRange :: string
  sortBy :: string
  tags :: "string list"
  priceRange :: "real \<times> real"

definition defaultFilters :: FilterState where
  "defaultFilters = \<lparr> search = [], assetTypes = [], licenses = [], verifiedOnly = False,
     dateRange = ''all'', sortBy = ''recent'', tags = [], priceRange = (0, 100) \<rparr>"

definition ASSETS_PER_PAGE :: int where
  "ASSETS_PER_PAGE = 10"

subsection \<open>The active filter count\<close>

definition activeFilterEntries :: "FilterState \<Rightarrow> jsval list" where
  "activeFilterEntries filters =
     [ js_and (JStr (search filters)) (JNum (Num 1)),
       JNum (js_length (assetTypes filters)),
       JNum (js_length (licenses filters)),
       js_and (JBool (verifiedOnly filters)) (JNum (Num 1)),
       js_and (JBool (dateRange filters \<noteq> ''all'')) (JNum (Num 1)),
       js_and (JBool (sortBy filters \<noteq> ''recent'')) (JNum (Num 1)),
       JNum (js_length (tags filters)) ]"

definition activeFilterCount :: "FilterState \<Rightarrow> jsval option" where
  "activeFilterCount filters =
     reduce js_plus (JNum (Num 0)) (filter truthy (activeFilterEntries filters))"

text \<open>What an entry of the array adds to the count: its value if it is a number, nothing otherwise.\<close>

fun contribution :: "jsval \<Rightarrow> real" where
  "contribution (JNum (Num r)) = r"
| "contribution _ = 0"

text \<open>An entry that survives \<open>filter(Boolean)\<close> is a finite number.\<close>

fun countable_entry :: "jsval \<Rightarrow> bool" where
  "countable_entry (JNum (Num r)) = True"
| "countable_entry v = (\<not> truthy v)"

subsection \<open>Filtering and sorting\<close>

text \<open>The comparators of the sort modes \<open>alphabetical\<close>, \<open>popular\<close> and \<open>trending\<close>.\<close>

definition alphabeticalCompare :: "js_runtime \<Rightarrow> asset \<Rightarrow> asset \<Rightarrow> jsnum" where
  "alphabeticalCompare rt a b = Num (localeCompare rt (title a) (title b))"

definition popularCompare :: "js_runtime \<Rightarrow> asset \<Rightarrow> asset \<Rightarrow> jsnum" where
  "popularCompare rt a b = js_minus (new_Date_getTime rt (timestamp b)) (new_Date_getTime rt (timestamp a))"

definition trendingCompare :: "js_runtime \<Rightarrow> asset \<Rightarrow> asset \<Rightarrow> jsnum" where
  "trendingCompare rt a b =
     js_minus (new_Date_getTime rt (registrationDate b)) (new_Date_getTime rt (registrationDate a))"

definition filteredAssets :: "js_runtime \<Rightarrow> asset list \<Rightarrow> FilterState \<Rightarrow> asset list" where
  "filteredAssets rt assets filters =
     (let filtered = assets;
          filtered =
            (if search filters \<noteq> [] then
               filter (\<lambda>asset.
                   str_includes (toLowerCase rt (title asset)) (toLowerCase rt (search filters))
                 \<or> str_includes (toLowerCase rt (description asset)) (toLowerCase rt (search filters))
                 \<or> str_includes (toLowerCase rt (name (creator asset))) (toLowerCase rt (search filters))
                 \<or> str_includes (toLowerCase rt (asset.tags asset)) (toLowerCase rt (search filters)))
                 filtered
             else filtered);
          filtered =
            (if length (assetTypes filters) > 0 then
               filter (\<lambda>asset. List.member (assetTypes filters) (toLowerCase rt (asset_type asset))) filtered
             else filtered);
          filtered =
            (if length (licenses filters) > 0 then
               filter (\<lambda>asset.
                 (let assetLicense = replace_spaces (toLowerCase rt (licenseType asset))
                  in list_ex (\<lambda>license. str_includes assetLicense license \<or> str_includes license assetLicense)
                       (licenses filters)))
                 filtered
             else filtered);
          filtered =
            (if verifiedOnly filters then filter (\<lambda>asset. verified (creator asset)) filtered
             else filtered);
          filtered =
            (if length (FilterState.tags filters) > 0 then
               filter (\<lambda>asset.
                 list_ex (\<lambda>tag. str_includes (toLowerCase rt (asset.tags asset)) (toLowerCase rt tag))
                   (FilterState.tags filters))
                 filtered
             else filtered)
      in if sortBy filters = ''alphabetical'' then js_sort (alphabeticalCompare rt) filtered
         else if sortBy filters = ''popular'' then js_sort (popularCompare rt) filtered
         else if sortBy filters = ''trending'' then js_sort (trendingCompare rt) filtered
         else filtered)"

section \<open>The timeline component\<close>

text \<open>
  An object of the heap: its identity and its contents. React compares the dependencies
  of an effect, and the old and new value of a state, by identity (\<open>Object.is\<close>).
\<close>

record 'a obj =
  ident :: nat
  contents :: 'a

text \<open>
  The state of \<open>Timeline\<close>: its five \<open>useState\<close> cells, and the next unused object
  identity (\<open>next_ident\<close>), from which a spread \<open>{ ...prev, field: v }\<close> takes the
  identity of the object it creates.
\<close>

record timeline =
  filters :: "FilterState obj"
  expandedAssets :: "string set"
  currentPage :: int
  isPaging :: bool
  hasMore :: bool
  next_ident :: nat

text \<open>The module-level constant \<open>defaultFilters\<close> is one object, created once.\<close>

definition defaultFilters_obj :: "FilterState obj" where
  "defaultFilters_obj = \<lparr> ident = 0, contents = defaultFilters \<rparr>"

definition initial_timeline :: timeline where
  "initial_timeline = \<lparr> filters = defaultFilters_obj, expandedAssets = {}, currentPage = 1,
     isPaging = False, hasMore = True, next_ident = 1 \<rparr>"

text \<open>
  The state never holds an identity that is still unused, and identity 0 is the
  constant \<open>defaultFilters\<close>, which nothing mutates.
\<close>

definition timeline_wf :: "timeline \<Rightarrow> bool" where
  "timeline_wf s =
     (ident (filters s) < next_ident s
      \<and> (ident (filters s) = 0 \<longrightarrow> contents (filters s) = defaultFilters))"

subsection \<open>Pagination\<close>

definition paginatedAssets :: "'a list \<Rightarrow> timeline \<Rightarrow> 'a list" where
  "paginatedAssets filtered s = slice0 filtered (currentPage s * ASSETS_PER_PAGE)"

text \<open>
  \<open>loadMore\<close> is asynchronous. \<open>loadMore_start\<close> is what runs at the call, up to the
  \<open>await\<close>: \<open>None\<close> when the guard returns at once. \<open>loadMore_finish\<close> is what runs
  after the delay; \<open>currentPage\<close> and \<open>filteredAssets.length\<close> are the values the
  callback closed over when it was created, passed as arguments.
\<close>

definition loadMore_start :: "timeline \<Rightarrow> timeline option" where
  "loadMore_start s = (if isPaging s \<or> \<not> hasMore s then None else Some (s\<lparr>isPaging := True\<rparr>))"

definition loadMore_finish :: "int \<Rightarrow> int \<Rightarrow> timeline \<Rightarrow> timeline" where
  "loadMore_finish closed_currentPage closed_length s =
     (let nextPage = closed_currentPage + 1;
          totalAvailable = closed_length;
          nextPageAssets = totalAvailable - closed_currentPage * ASSETS_PER_PAGE;
          s' = (if nextPageAssets \<le> 0 then s\<lparr>hasMore := False\<rparr> else s\<lparr>currentPage := nextPage\<rparr>)
      in s'\<lparr>isPaging := False\<rparr>)"

text \<open>One advance on the filtered list, with no other event during the delay.\<close>

definition loadMore :: "'a list \<Rightarrow> timeline \<Rightarrow> timeline" where
  "loadMore filtered s =
     (case loadMore_start s of
        None \<Rightarrow> s
      | Some s1 \<Rightarrow> loadMore_finish (currentPage s) (int (length filtered)) s1)"

subsection \<open>Changing the filters\<close>

text \<open>The effect with dependencies \<open>[filters]\<close>.\<close>

definition resetPagination :: "timeline \<Rightarrow> timeline" where
  "resetPagination s = s\<lparr>currentPage := 1, hasMore := True\<rparr>"

text \<open>
  \<open>setFilters(next)\<close> followed by the render it causes: the state takes the new
  object, and the effect runs when its dependency is not the same object as before.
\<close>

definition setFilters :: "FilterState obj \<Rightarrow> timeline \<Rightarrow> timeline" where
  "setFilters next s =
     (let s' = s\<lparr>filters := next\<rparr>
      in if ident next \<noteq> ident (filters s) then resetPagination s' else s')"

text \<open>\<open>setFilters((prev) => ({ ...prev, ... }))\<close>: the updater's result is a new object.\<close>

definition setFilters_spread :: "(FilterState \<Rightarrow> FilterState) \<Rightarrow> timeline \<Rightarrow> timeline" where
  "setFilters_spread update s =
     setFilters \<lparr> ident = next_ident s, contents = update (contents (filters s)) \<rparr>
       (s\<lparr>next_ident := Suc (next_ident s)\<rparr>)"

definition clearFilters :: "timeline \<Rightarrow> timeline" where
  "clearFilters s = setFilters defaultFilters_obj s"

definition removeFilter :: "string \<Rightarrow> string option \<Rightarrow> timeline \<Rightarrow> timeline" where
  "removeFilter ty v s =
     (if ty = ''search'' then setFilters_spread (\<lambda>prev. prev\<lparr>search := []\<rparr>) s
      else if ty = ''assetType'' then
        setFilters_spread (\<lambda>prev. prev\<lparr>assetTypes := filter (\<lambda>t. Some t \<noteq> v) (assetTypes prev)\<rparr>) s
      else if ty = ''license'' then
        setFilters_spread (\<lambda>prev. prev\<lparr>licenses := filter (\<lambda>l. Some l \<noteq> v) (licenses prev)\<rparr>) s
      else if ty = ''verified'' then setFilters_spread (\<lambda>prev. prev\<lparr>verifiedOnly := False\<rparr>) s
      else if ty = ''tag'' then
        setFilters_spread (\<lambda>prev. prev\<lparr>FilterState.tags := filter (\<lambda>t. Some t \<noteq> v) (FilterState.tags prev)\<rparr>) s
      else s)"

subsection \<open>The expansion set\<close>

definition toggleExpanded :: "string \<Rightarrow> timeline \<Rightarrow> timeline" where
  "toggleExpanded assetId s =
     s\<lparr>expandedAssets :=
         (let newSet = expandedAssets s
          in if assetId \<in> newSet then newSet - {assetId} else insert assetId newSet)\<rparr>"

section \<open>The timeline loader\<close>

text \<open>The state of \<open>usePublicTimeline\<close>: three \<open>useState\<close> cells and the ref.\<close>

record loader =
  allAssets :: "asset list"
  isLoading :: bool
  error :: "string option"
  fetchedRef :: bool

definition initial_loader :: loader where
  "initial_loader = \<lparr> allAssets = [], isLoading = False, error = None, fetchedRef = False \<rparr>"

text \<open>A thrown value: what \<open>e?.message\<close> reads from it, \<open>None\<close> when it has no message.\<close>

datatype thrown = Thrown (message: "string option")

text \<open>How the promise of \<open>getCollectionAssets\<close> settles.\<close>

datatype outcome = Resolved "asset list" | Rejected thrown

text \<open>
  \<open>loadCollectionOnce\<close> is asynchronous. \<open>loadCollectionOnce_start\<close> runs at the call,
  up to the \<open>await\<close>: \<open>None\<close> when the guard returns at once and nothing is requested,
  \<open>Some\<close> when \<open>getCollectionAssets\<close> has been called. \<open>loadCollectionOnce_finish\<close>
  runs when the promise settles.
\<close>

definition loadCollectionOnce_start :: "loader \<Rightarrow> loader option" where
  "loadCollectionOnce_start s =
     (if fetchedRef s then None else Some (s\<lparr>isLoading := True, error := None\<rparr>))"

definition loadCollectionOnce_finish :: "js_runtime \<Rightarrow> outcome \<Rightarrow> loader \<Rightarrow> loader" where
  "loadCollectionOnce_finish rt out s =
     (let s' =
        (case out of
           Resolved assets \<Rightarrow>
             (let sorted = js_sort (sortAssetsDesc rt) assets
              in s\<lparr>allAssets := sorted, fetchedRef := True\<rparr>)
         | Rejected e \<Rightarrow>
             s\<lparr>error := Some (nullish (message e) ''Failed to load timeline''), allAssets := []\<rparr>)
      in s'\<lparr>isLoading := False\<rparr>)"

text \<open>The hook returns \<open>refetch: loadCollectionOnce\<close>: the same function.\<close>

definition refetch_start :: "loader \<Rightarrow> loader option" where
  "refetch_start = loadCollectionOnce_start"

subsection \<open>Interleavings of triggers and settlements\<close>

text \<open>
  The loader with its pending requests: \<open>inFlight\<close> counts the calls of
  \<open>getCollectionAssets\<close> whose promise has not settled, \<open>requests\<close> all the calls made.
\<close>

record loader_sys =
  hook :: loader
  inFlight :: nat
  requests :: nat

definition initial_sys :: loader_sys where
  "initial_sys = \<lparr> hook = initial_loader, inFlight = 0, requests = 0 \<rparr>"

text \<open>
  The events of a mount: the effect calls \<open>loadCollectionOnce\<close> (\<open>Activate\<close>), a
  consumer calls \<open>refetch\<close> (\<open>Refetch\<close>), a pending promise settles (\<open>Settle\<close>).
\<close>

datatype event = Activate | Refetch | Settle outcome

text \<open>The events that call the loader.\<close>

fun is_trigger :: "event \<Rightarrow> bool" where
  "is_trigger Activate = True"
| "is_trigger Refetch = True"
| "is_trigger (Settle out) = False"

text \<open>The events in which a fetch succeeds.\<close>

fun is_success :: "event \<Rightarrow> bool" where
  "is_success (Settle (Resolved assets)) = True"
| "is_success ev = False"

definition trigger :: "(loader \<Rightarrow> loader option) \<Rightarrow> loader_sys \<Rightarrow> loader_sys" where
  "trigger start w =
     (case start (hook w) of
        None \<Rightarrow> w
      | Some h \<Rightarrow> w\<lparr>hook := h, inFlight := Suc (inFlight w), requests := Suc (requests w)\<rparr>)"

text \<open>One event; \<open>None\<close> when a settlement is asked for with nothing in flight.\<close>

fun sys_step :: "js_runtime \<Rightarrow> event \<Rightarrow> loader_sys \<Rightarrow> loader_sys option" where
  "sys_step rt Activate w = Some (trigger loadCollectionOnce_start w)"
| "sys_step rt Refetch w = Some (trigger refetch_start w)"
| "sys_step rt (Settle out) w =
     (if inFlight w = 0 then None
      else Some (w\<lparr>hook := loadCollectionOnce_finish rt out (hook w), inFlight := inFlight w - 1\<rparr>))"

fun sys_run :: "js_runtime \<Rightarrow> event list \<Rightarrow> loader_sys \<Rightarrow> loader_sys option" where
  "sys_run rt [] w = Some w"
| "sys_run rt (ev # evs) w = (case sys_step rt ev w of None \<Rightarrow> None | Some w' \<Rightarrow> sys_run rt evs w')"

section \<open>A host for the closed instances\<close>

text \<open>
  The values the built-ins have on the strings the instances below use:
  \<open>Date.parse\<close> of two ISO dates, \<open>Number\<close> of three decimal strings, lower-casing of
  ASCII letters, and the comparison of code units for \<open>localeCompare\<close>. Every other
  date string and number string is taken as unparsable.
\<close>

definition sample_Date_parse :: "string \<Rightarrow> jsnum" where
  "sample_Date_parse s =
     (if s = ''2024-01-01T00:00:00.000Z'' then Num 1704067200000
      else if s = ''2023-01-01T00:00:00.000Z'' then Num 1672531200000
      else NaN)"

definition sample_Number :: "string \<Rightarrow> jsnum" where
  "sample_Number s =
     (if s = [] then Num 0 else if s = ''7'' then Num 7 else if s = ''12'' then Num 12 else NaN)"

definition ascii_lower :: "char \<Rightarrow> char" where
  "ascii_lower c =
     (case map_of (zip ''ABCDEFGHIJKLMNOPQRSTUVWXYZ'' ''abcdefghijklmnopqrstuvwxyz'') c of
        None \<Rightarrow> c
      | Some l \<Rightarrow> l)"

fun compare_units :: "string \<Rightarrow> string \<Rightarrow> real" where
  "compare_units [] [] = 0"
| "compare_units [] (c # t) = -1"
| "compare_units (a # s) [] = 1"
| "compare_units (a # s) (c # t) =
     (if (of_char a :: nat) < of_char c then -1
      else if (of_char c :: nat) < of_char a then 1
      else compare_units s t)"

definition sample_host :: js_runtime where
  "sample_host = \<lparr> Date_parse = sample_Date_parse, Number_of_string = sample_Number,
     localeCompare = compare_units, toLowerCase = map ascii_lower \<rparr>"

text \<open>An asset with every text field empty, no date and no identifier.\<close>

definition blank_asset :: asset where
  "blank_asset = \<lparr> asset_id = None, tokenId = None, title = [], description = [], asset_type = [],
     tags = [], licenseType = [], creator = \<lparr> name = [], verified = False \<rparr>,
     registrationDate = None, timestamp = None \<rparr>"

section \<open>The active filter count is the stated sum\<close>

lemma reduce_plus_countable:
  "list_all countable_entry xs \<Longrightarrow>
   reduce js_plus (JNum (Num a)) (filter truthy xs) = Some (JNum (Num (a + sum_list (map contribution xs))))"
proof (induction xs arbitrary: a)
  case Nil
  show ?case by simp
next
  case (Cons x xs)
  then have x: "countable_entry x" and xs: "list_all countable_entry xs" by simp_all
  show ?case
  proof (cases "truthy x")
    case False
    with x have "contribution x = 0" by (cases x rule: contribution.cases) simp_all
    with False Cons.IH [OF xs] show ?thesis by simp
  next
    case True
    with x obtain r where "x = JNum (Num r)" by (cases x rule: countable_entry.cases) simp_all
    with True Cons.IH [OF xs, of "a + r"] show ?thesis by (simp add: js_add_def add.assoc)
  qed
qed

lemma activeFilterEntries_countable: "list_all countable_entry (activeFilterEntries f)"
  by (simp add: activeFilterEntries_def js_and_def js_length_def)

lemma activeFilterEntries_sum:
  "sum_list (map contribution (activeFilterEntries f)) =
     (if search f \<noteq> [] then 1 else 0) + real (length (assetTypes f)) + real (length (licenses f))
     + (if verifiedOnly f then 1 else 0) + (if dateRange f \<noteq> ''all'' then 1 else 0)
     + (if sortBy f \<noteq> ''recent'' then 1 else 0) + real (length (tags f))"
  by (simp add: activeFilterEntries_def js_and_def js_length_def)

text \<open>
  C1. For every filter configuration the active filter count is computed without leaving
  numbers, and is the sum of: 1 if the search string is non-empty, the number of selected
  asset types, the number of selected licenses, 1 if verified-only is set, 1 if the date
  range is not \<open>all\<close>, 1 if the sort mode is not \<open>recent\<close>, and the number of selected
  tags. The price range does not contribute: changing it leaves the count unchanged. The
  configuration with search \<open>cat\<close> and tags \<open>art\<close>, \<open>photo\<close> counts 3; the default
  configuration counts 0.
\<close>

theorem activeFilterCount_sum:
  "activeFilterCount f =
     Some (JNum (Num ((if search f \<noteq> [] then 1 else 0) + real (length (assetTypes f))
       + real (length (licenses f)) + (if verifiedOnly f then 1 else 0)
       + (if dateRange f \<noteq> ''all'' then 1 else 0) + (if sortBy f \<noteq> ''recent'' then 1 else 0)
       + real (length (tags f)))))
   \<and> activeFilterCount (f\<lparr>priceRange := p\<rparr>) = activeFilterCount f
   \<and> activeFilterCount (defaultFilters\<lparr>search := ''cat'', tags := [''art'', ''photo'']\<rparr>) = Some (JNum (Num 3))
   \<and> activeFilterCount defaultFilters = Some (JNum (Num 0))"
proof -
  have count: "activeFilterCount g = Some (JNum (Num (sum_list (map contribution (activeFilterEntries g)))))" for g
    unfolding activeFilterCount_def
    using reduce_plus_countable [OF activeFilterEntries_countable, of 0 g] by simp
  have price: "activeFilterEntries (f\<lparr>priceRange := p\<rparr>) = activeFilterEntries f"
    by (simp add: activeFilterEntries_def)
  show ?thesis
    by (simp add: count activeFilterEntries_sum price defaultFilters_def)
qed

section \<open>The descending timeline comparator follows its description\<close>

text \<open>A guarded date of the comparator is the usable date of the description.\<close>

lemma guarded_time:
  "(if str_truthy d \<and> \<not> isNaN (Date_parse_of rt d) then new_Date_getTime rt d else other) =
     (case parsed_time rt d of Some t \<Rightarrow> Num t | None \<Rightarrow> other)"
proof (cases d)
  case None
  then show ?thesis by (simp add: str_truthy_def parsed_time_def)
next
  case (Some s)
  show ?thesis
  proof (cases "Date_parse rt s")
    case NaN
    with Some show ?thesis
      by (simp add: str_truthy_def parsed_time_def isNaN_def Date_parse_of_def)
  next
    case (Num t)
    with Some show ?thesis
      by (simp add: str_truthy_def parsed_time_def isNaN_def Date_parse_of_def new_Date_getTime_def)
  qed
qed

lemma order_time:
  "(if str_truthy (registrationDate a) \<and> \<not> isNaN (Date_parse_of rt (registrationDate a))
    then new_Date_getTime rt (registrationDate a)
    else if str_truthy (timestamp a) \<and> \<not> isNaN (Date_parse_of rt (timestamp a))
    then new_Date_getTime rt (timestamp a)
    else Num 0) = Num (effective_time rt a)"
  unfolding guarded_time by (simp add: effective_time_def split: option.split)

lemma order_id:
  "Number rt (nullish (tokenId a) (nullish (asset_id a) (IdNum (Num 0)))) = numeric_id rt a"
  by (simp add: nullish_def numeric_id_def Number_def split: option.split)

lemma sortAssetsDesc_unfolded:
  "sortAssetsDesc rt a b =
     (if effective_time rt b \<noteq> effective_time rt a
      then Num (effective_time rt b - effective_time rt a)
      else js_minus (numeric_id rt b) (numeric_id rt a))"
  unfolding sortAssetsDesc_def Let_def order_time order_id
  by (simp add: js_strict_neq_def js_minus_def)

text \<open>
  C2. For every pair of assets \<open>a\<close>, \<open>b\<close> the comparator's result is the difference of
  the effective times, \<open>b\<close>'s minus \<open>a\<close>'s, when they differ: negative (\<open>a\<close> first) when
  \<open>a\<close> is later, positive (\<open>b\<close> first) when \<open>b\<close> is later. The effective time is the
  registration date parsed, else the generic timestamp parsed, else 0. On equal times the
  result is the difference of the numeric identifiers, \<open>b\<close>'s minus \<open>a\<close>'s, where the
  numeric identifier is \<open>Number\<close> of the token identifier, else of the identifier, else 0:
  the larger identifier first.
\<close>

theorem sortAssetsDesc_orders:
  "sortAssetsDesc rt a b =
     (if effective_time rt b \<noteq> effective_time rt a
      then Num (effective_time rt b - effective_time rt a)
      else js_minus (numeric_id rt b) (numeric_id rt a))
   \<and> (effective_time rt b < effective_time rt a \<longrightarrow> (\<exists>d. sortAssetsDesc rt a b = Num d \<and> d < 0))
   \<and> (effective_time rt a < effective_time rt b \<longrightarrow> (\<exists>d. sortAssetsDesc rt a b = Num d \<and> 0 < d))
   \<and> (effective_time rt a = effective_time rt b \<and> numeric_id rt a = Num i \<and> numeric_id rt b = Num j
        \<longrightarrow> sortAssetsDesc rt a b = Num (j - i) \<and> (j - i < 0 \<longleftrightarrow> j < i) \<and> (0 < j - i \<longleftrightarrow> i < j))"
proof (intro conjI impI)
  show "sortAssetsDesc rt a b =
     (if effective_time rt b \<noteq> effective_time rt a
      then Num (effective_time rt b - effective_time rt a)
      else js_minus (numeric_id rt b) (numeric_id rt a))"
    by (rule sortAssetsDesc_unfolded)
next
  assume "effective_time rt b < effective_time rt a"
  then show "\<exists>d. sortAssetsDesc rt a b = Num d \<and> d < 0"
    by (simp add: sortAssetsDesc_unfolded)
next
  assume "effective_time rt a < effective_time rt b"
  then show "\<exists>d. sortAssetsDesc rt a b = Num d \<and> 0 < d"
    by (simp add: sortAssetsDesc_unfolded)
next
  assume tie: "effective_time rt a = effective_time rt b \<and> numeric_id rt a = Num i \<and> numeric_id rt b = Num j"
  then show "sortAssetsDesc rt a b = Num (j - i)"
    by (simp add: sortAssetsDesc_unfolded js_minus_def)
  show "j - i < 0 \<longleftrightarrow> j < i" by simp
  show "0 < j - i \<longleftrightarrow> i < j" by simp
qed

text \<open>
  The theorem at work: an asset without registration date but with the timestamp
  2024-01-01 is ordered by that timestamp, before an asset with neither date, whose time
  is 0; and of two assets with neither date, the one with token identifier 12 comes
  before the one that has only the identifier 7.
\<close>

theorem sortAssetsDesc_orders_witness:
  "effective_time sample_host (blank_asset\<lparr>timestamp := Some ''2024-01-01T00:00:00.000Z''\<rparr>) = 1704067200000
   \<and> effective_time sample_host blank_asset = 0
   \<and> (\<exists>d. sortAssetsDesc sample_host
            (blank_asset\<lparr>timestamp := Some ''2024-01-01T00:00:00.000Z''\<rparr>) blank_asset = Num d \<and> d < 0)
   \<and> (\<exists>d. sortAssetsDesc sample_host
            blank_asset (blank_asset\<lparr>timestamp := Some ''2024-01-01T00:00:00.000Z''\<rparr>) = Num d \<and> 0 < d)
   \<and> sortAssetsDesc sample_host
        (blank_asset\<lparr>tokenId := Some (IdStr ''12'')\<rparr>) (blank_asset\<lparr>asset_id := Some (IdNum (Num 7))\<rparr>) = Num (7 - 12)"
proof -
  let ?late = "blank_asset\<lparr>timestamp := Some ''2024-01-01T00:00:00.000Z''\<rparr>"
  let ?tok = "blank_asset\<lparr>tokenId := Some (IdStr ''12'')\<rparr>"
  let ?idn = "blank_asset\<lparr>asset_id := Some (IdNum (Num 7))\<rparr>"
  have late: "effective_time sample_host ?late = 1704067200000"
    by (simp add: effective_time_def parsed_time_def blank_asset_def sample_host_def sample_Date_parse_def)
  have none: "effective_time sample_host blank_asset = 0"
    by (simp add: effective_time_def parsed_time_def blank_asset_def)
  have tok: "effective_time sample_host ?tok = 0" "numeric_id sample_host ?tok = Num 12"
    by (simp_all add: effective_time_def parsed_time_def blank_asset_def numeric_id_def Number_def
        sample_host_def sample_Number_def)
  have idn: "effective_time sample_host ?idn = 0" "numeric_id sample_host ?idn = Num 7"
    by (simp_all add: effective_time_def parsed_time_def blank_asset_def numeric_id_def Number_def)
  have lt: "effective_time sample_host blank_asset < effective_time sample_host ?late"
    by (simp add: late none)
  have tie: "effective_time sample_host ?tok = effective_time sample_host ?idn
      \<and> numeric_id sample_host ?tok = Num 12 \<and> numeric_id sample_host ?idn = Num 7"
    by (simp add: tok idn)
  from sortAssetsDesc_orders [of sample_host ?late blank_asset] lt
  have first: "\<exists>d. sortAssetsDesc sample_host ?late blank_asset = Num d \<and> d < 0" by blast
  from sortAssetsDesc_orders [of sample_host blank_asset ?late] lt
  have second: "\<exists>d. sortAssetsDesc sample_host blank_asset ?late = Num d \<and> 0 < d" by blast
  from sortAssetsDesc_orders [of sample_host ?tok ?idn 12 7] tie
  have third: "sortAssetsDesc sample_host ?tok ?idn = Num (7 - 12)" by blast
  from late none first second third show ?thesis by blast
qed

section \<open>Pagination advances one page at a time\<close>

lemma slice0_length:
  "0 \<le> stop \<Longrightarrow> length (slice0 xs stop) = min (nat stop) (length xs)"
  by (auto simp: slice0_def Let_def min_def)

lemma paginatedAssets_length:
  "0 \<le> currentPage s \<Longrightarrow>
   length (paginatedAssets filtered s) = min (nat (currentPage s * 10)) (length filtered)"
  by (simp add: paginatedAssets_def ASSETS_PER_PAGE_def slice0_length)

text \<open>
  C3. \<open>loadMore\<close> changes nothing when an advance is in flight or \<open>hasMore\<close> is false.
  Otherwise it marks the advance in flight and, after the delay, clears the flag again,
  having set \<open>hasMore\<close> to false with the page count unchanged when the filtered list has
  at most \<open>currentPage * 10\<close> items, and having added one to the page count when it has
  more. On a filtered list of 25 items the visible count is 10 at the start, 20 after one
  advance, 25 after two, and a third advance sets \<open>hasMore\<close> to false and leaves page
  count and visible count as they were.
\<close>

theorem loadMore_advances:
  "(isPaging s \<or> \<not> hasMore s \<longrightarrow> loadMore filtered s = s)
   \<and> (\<not> isPaging s \<and> hasMore s \<longrightarrow> loadMore_start s = Some (s\<lparr>isPaging := True\<rparr>))
   \<and> (\<not> isPaging s \<and> hasMore s \<and> int (length filtered) \<le> currentPage s * 10 \<longrightarrow>
        loadMore filtered s = s\<lparr>hasMore := False, isPaging := False\<rparr>)
   \<and> (\<not> isPaging s \<and> hasMore s \<and> currentPage s * 10 < int (length filtered) \<longrightarrow>
        loadMore filtered s = s\<lparr>currentPage := currentPage s + 1, isPaging := False\<rparr>)
   \<and> (length filtered = 25 \<longrightarrow>
        length (paginatedAssets filtered initial_timeline) = 10
        \<and> length (paginatedAssets filtered (loadMore filtered initial_timeline)) = 20
        \<and> length (paginatedAssets filtered (loadMore filtered (loadMore filtered initial_timeline))) = 25
        \<and> hasMore (loadMore filtered (loadMore filtered initial_timeline))
        \<and> loadMore filtered (loadMore filtered (loadMore filtered initial_timeline))
            = (loadMore filtered (loadMore filtered initial_timeline))\<lparr>hasMore := False\<rparr>
        \<and> length (paginatedAssets filtered
              (loadMore filtered (loadMore filtered (loadMore filtered initial_timeline)))) = 25)"
proof (intro conjI impI)
  assume "isPaging s \<or> \<not> hasMore s"
  then show "loadMore filtered s = s"
    by (auto simp: loadMore_def loadMore_start_def)
next
  assume "\<not> isPaging s \<and> hasMore s"
  then show "loadMore_start s = Some (s\<lparr>isPaging := True\<rparr>)"
    by (simp add: loadMore_start_def)
next
  assume "\<not> isPaging s \<and> hasMore s \<and> int (length filtered) \<le> currentPage s * 10"
  then show "loadMore filtered s = s\<lparr>hasMore := False, isPaging := False\<rparr>"
    by (simp add: loadMore_def loadMore_start_def loadMore_finish_def ASSETS_PER_PAGE_def)
next
  assume "\<not> isPaging s \<and> hasMore s \<and> currentPage s * 10 < int (length filtered)"
  then show "loadMore filtered s = s\<lparr>currentPage := currentPage s + 1, isPaging := False\<rparr>"
    by (simp add: loadMore_def loadMore_start_def loadMore_finish_def ASSETS_PER_PAGE_def)
next
  assume len: "length filtered = 25"
  let ?s1 = "loadMore filtered initial_timeline"
  let ?s2 = "loadMore filtered ?s1"
  let ?s3 = "loadMore filtered ?s2"
  have s1: "?s1 = initial_timeline\<lparr>currentPage := 2\<rparr>"
    using len
    by (simp add: loadMore_def loadMore_start_def loadMore_finish_def ASSETS_PER_PAGE_def
        initial_timeline_def)
  have s2: "?s2 = initial_timeline\<lparr>currentPage := 3\<rparr>"
    using len unfolding s1
    by (simp add: loadMore_def loadMore_start_def loadMore_finish_def ASSETS_PER_PAGE_def
        initial_timeline_def)
  have s3: "?s3 = initial_timeline\<lparr>currentPage := 3, hasMore := False\<rparr>"
    using len unfolding s2
    by (simp add: loadMore_def loadMore_start_def loadMore_finish_def ASSETS_PER_PAGE_def
        initial_timeline_def)
  show "length (paginatedAssets filtered initial_timeline) = 10"
    using len by (simp add: paginatedAssets_length initial_timeline_def)
  show "length (paginatedAssets filtered ?s1) = 20"
    using len unfolding s1 by (simp add: paginatedAssets_length initial_timeline_def)
  show "length (paginatedAssets filtered ?s2) = 25"
    using len unfolding s2 by (simp add: paginatedAssets_length initial_timeline_def)
  show "hasMore ?s2"
    unfolding s2 by (simp add: initial_timeline_def)
  show "?s3 = ?s2\<lparr>hasMore := False\<rparr>"
    unfolding s3 unfolding s2 by simp
  show "length (paginatedAssets filtered ?s3) = 25"
    using len unfolding s3 by (simp add: paginatedAssets_length initial_timeline_def)
qed

text \<open>
  The theorem at work on 25 blank assets: a call during an advance in flight changes
  nothing; the first advance gives page 2 and 20 visible items; and on 5 assets the
  first advance only sets \<open>hasMore\<close> to false.
\<close>

theorem loadMore_advances_witness:
  "loadMore (replicate 25 blank_asset) (initial_timeline\<lparr>isPaging := True\<rparr>) = initial_timeline\<lparr>isPaging := True\<rparr>
   \<and> loadMore (replicate 5 blank_asset) initial_timeline = initial_timeline\<lparr>hasMore := False, isPaging := False\<rparr>
   \<and> loadMore (replicate 25 blank_asset) initial_timeline = initial_timeline\<lparr>currentPage := 1 + 1, isPaging := False\<rparr>
   \<and> length (paginatedAssets (replicate 25 blank_asset) (loadMore (replicate 25 blank_asset) initial_timeline)) = 20
   \<and> loadMore_start initial_timeline = Some (initial_timeline\<lparr>isPaging := True\<rparr>)"
proof -
  let ?xs = "replicate 25 blank_asset"
  have busy: "isPaging (initial_timeline\<lparr>isPaging := True\<rparr>) \<or> \<not> hasMore (initial_timeline\<lparr>isPaging := True\<rparr>)"
    by simp
  have few: "\<not> isPaging initial_timeline \<and> hasMore initial_timeline
      \<and> int (length (replicate 5 blank_asset)) \<le> currentPage initial_timeline * 10"
    by (simp add: initial_timeline_def)
  have many: "\<not> isPaging initial_timeline \<and> hasMore initial_timeline
      \<and> currentPage initial_timeline * 10 < int (length ?xs)"
    by (simp add: initial_timeline_def)
  have page: "currentPage initial_timeline = 1"
    by (simp add: initial_timeline_def)
  have len: "length ?xs = 25" by simp
  from loadMore_advances [of "initial_timeline\<lparr>isPaging := True\<rparr>" ?xs] busy
  have a: "loadMore ?xs (initial_timeline\<lparr>isPaging := True\<rparr>) = initial_timeline\<lparr>isPaging := True\<rparr>"
    by blast
  from loadMore_advances [of initial_timeline "replicate 5 blank_asset"] few
  have b: "loadMore (replicate 5 blank_asset) initial_timeline = initial_timeline\<lparr>hasMore := False, isPaging := False\<rparr>"
    by blast
  from loadMore_advances [of initial_timeline ?xs] many
  have "loadMore ?xs initial_timeline = initial_timeline\<lparr>currentPage := currentPage initial_timeline + 1, isPaging := False\<rparr>"
    by blast
  then have c: "loadMore ?xs initial_timeline = initial_timeline\<lparr>currentPage := 1 + 1, isPaging := False\<rparr>"
    by (simp only: page)
  from loadMore_advances [of initial_timeline ?xs] len
  have d: "length (paginatedAssets ?xs (loadMore ?xs initial_timeline)) = 20"
    by blast
  from loadMore_advances [of initial_timeline ?xs] many
  have e: "loadMore_start initial_timeline = Some (initial_timeline\<lparr>isPaging := True\<rparr>)"
    by blast
  from a b c d e show ?thesis by blast
qed

section \<open>Toggling an expansion\<close>

text \<open>
  C10. Toggling \<open>x\<close> puts \<open>x\<close> into the expansion set exactly when it was not in it and
  takes it out exactly when it was, leaves the membership of every other identifier
  as it was, and touches nothing else of the state; toggling \<open>x\<close> twice gives the
  original state back.
\<close>

theorem toggleExpanded_flips:
  "(x \<in> expandedAssets (toggleExpanded x s) \<longleftrightarrow> x \<notin> expandedAssets s)
   \<and> (y \<noteq> x \<longrightarrow> (y \<in> expandedAssets (toggleExpanded x s) \<longleftrightarrow> y \<in> expandedAssets s))
   \<and> toggleExpanded x s = s\<lparr>expandedAssets := expandedAssets (toggleExpanded x s)\<rparr>
   \<and> toggleExpanded x (toggleExpanded x s) = s"
proof (intro conjI impI)
  show "x \<in> expandedAssets (toggleExpanded x s) \<longleftrightarrow> x \<notin> expandedAssets s"
    by (simp add: toggleExpanded_def Let_def)
next
  assume "y \<noteq> x"
  then show "y \<in> expandedAssets (toggleExpanded x s) \<longleftrightarrow> y \<in> expandedAssets s"
    by (simp add: toggleExpanded_def Let_def)
next
  show "toggleExpanded x s = s\<lparr>expandedAssets := expandedAssets (toggleExpanded x s)\<rparr>"
    by (simp add: toggleExpanded_def)
next
  have "expandedAssets (toggleExpanded x (toggleExpanded x s)) = expandedAssets s"
    by (auto simp: toggleExpanded_def Let_def)
  then show "toggleExpanded x (toggleExpanded x s) = s"
    by (simp add: toggleExpanded_def)
qed

text \<open>
  The theorem at work: with \<open>a\<close> expanded, toggling \<open>b\<close> keeps \<open>a\<close> expanded and
  expands \<open>b\<close>, and toggling \<open>b\<close> again gives the set of \<open>a\<close> alone.
\<close>

theorem toggleExpanded_flips_witness:
  "''a'' \<noteq> ''b''
   \<and> ''a'' \<in> expandedAssets (toggleExpanded ''b'' (initial_timeline\<lparr>expandedAssets := {''a''}\<rparr>))
   \<and> ''b'' \<in> expandedAssets (toggleExpanded ''b'' (initial_timeline\<lparr>expandedAssets := {''a''}\<rparr>))
   \<and> toggleExpanded ''b'' (toggleExpanded ''b'' (initial_timeline\<lparr>expandedAssets := {''a''}\<rparr>))
       = initial_timeline\<lparr>expandedAssets := {''a''}\<rparr>"
proof -
  let ?s = "initial_timeline\<lparr>expandedAssets := {''a''}\<rparr>"
  have ne: "''a'' \<noteq> ''b''" by simp
  have a_in: "''a'' \<in> expandedAssets ?s" and b_out: "''b'' \<notin> expandedAssets ?s" by simp_all
  note t = toggleExpanded_flips [of "''b''" ?s "''a''"]
  from t ne a_in have 1: "''a'' \<in> expandedAssets (toggleExpanded ''b'' ?s)" by blast
  from t b_out have 2: "''b'' \<in> expandedAssets (toggleExpanded ''b'' ?s)" by blast
  from t have 3: "toggleExpanded ''b'' (toggleExpanded ''b'' ?s) = ?s" by blast
  from ne 1 2 3 show ?thesis by blast
qed

section \<open>A change of the filters resets the pagination\<close>

lemma setFilters_other_object:
  "ident next \<noteq> ident (filters s) \<Longrightarrow>
   setFilters next s = s\<lparr>filters := next, currentPage := 1, hasMore := True\<rparr>"
  by (simp add: setFilters_def resetPagination_def)

lemma setFilters_spread_resets:
  "timeline_wf s \<Longrightarrow>
   setFilters_spread update s =
     s\<lparr>next_ident := Suc (next_ident s),
       filters := \<lparr> ident = next_ident s, contents = update (contents (filters s)) \<rparr>,
       currentPage := 1, hasMore := True\<rparr>"
  by (simp add: setFilters_spread_def setFilters_other_object timeline_wf_def)

lemma removeFilter_cases:
  "removeFilter ty v s = s \<or> (\<exists>update. removeFilter ty v s = setFilters_spread update s)"
proof -
  let ?Q = "\<lambda>r. r = s \<or> (\<exists>update. r = setFilters_spread update s)"
  have spread: "?Q (setFilters_spread u s)" for u by blast
  have same: "?Q s" by simp
  have branch: "?Q a \<Longrightarrow> ?Q b \<Longrightarrow> ?Q (if c then a else b)" for a b c by simp
  show ?thesis unfolding removeFilter_def by (rule branch spread same)+
qed

lemma clearFilters_resets:
  assumes "timeline_wf s" and "contents (filters (clearFilters s)) \<noteq> contents (filters s)"
  shows "currentPage (clearFilters s) = 1 \<and> hasMore (clearFilters s)"
proof (cases "ident (filters s) = 0")
  case True
  with assms(1) have "contents (filters s) = defaultFilters" by (simp add: timeline_wf_def)
  with assms(2) show ?thesis
    by (simp add: clearFilters_def setFilters_def Let_def resetPagination_def defaultFilters_obj_def
        split: if_splits)
next
  case False
  then show ?thesis
    by (simp add: clearFilters_def setFilters_other_object defaultFilters_obj_def)
qed

lemma removeFilter_resets:
  assumes "timeline_wf s" and "contents (filters (removeFilter ty v s)) \<noteq> contents (filters s)"
  shows "currentPage (removeFilter ty v s) = 1 \<and> hasMore (removeFilter ty v s)"
proof -
  from removeFilter_cases [of ty v s] assms(2)
  obtain update where "removeFilter ty v s = setFilters_spread update s" by auto
  with assms(1) show ?thesis by (simp add: setFilters_spread_resets)
qed

lemma timeline_wf_preserved:
  assumes "timeline_wf s"
  shows "timeline_wf (clearFilters s)" and "timeline_wf (removeFilter ty v s)"
proof -
  from assms show "timeline_wf (clearFilters s)"
    by (simp add: clearFilters_def setFilters_def Let_def resetPagination_def defaultFilters_obj_def
        timeline_wf_def)
  from removeFilter_cases [of ty v s] assms show "timeline_wf (removeFilter ty v s)"
    by (auto simp: setFilters_spread_resets) (simp add: timeline_wf_def)
qed

text \<open>
  C4. Whenever \<open>setFilters\<close> installs a configuration whose contents differ from the
  current one's, in any field, the page count is 1 and \<open>hasMore\<close> is true afterwards.
  State objects are not mutated in place (an object that keeps its identity keeps its
  contents), so a change of contents is a change of identity, which is what the effect
  watches. The same holds for the two handlers of the component, \<open>clearFilters\<close> and
  \<open>removeFilter\<close>, from every well-formed state, and they keep the state well-formed.
  Nothing is asked of the filtered list: the reset does not look at it.
\<close>

theorem filters_change_resets_pagination:
  "((ident next = ident (filters s) \<longrightarrow> contents next = contents (filters s))
      \<and> contents next \<noteq> contents (filters s)
      \<longrightarrow> currentPage (setFilters next s) = 1 \<and> hasMore (setFilters next s)
          \<and> filters (setFilters next s) = next)
   \<and> (timeline_wf s \<and> contents (filters (clearFilters s)) \<noteq> contents (filters s)
      \<longrightarrow> currentPage (clearFilters s) = 1 \<and> hasMore (clearFilters s))
   \<and> (timeline_wf s \<and> contents (filters (removeFilter ty v s)) \<noteq> contents (filters s)
      \<longrightarrow> currentPage (removeFilter ty v s) = 1 \<and> hasMore (removeFilter ty v s))
   \<and> timeline_wf initial_timeline
   \<and> (timeline_wf s \<longrightarrow> timeline_wf (clearFilters s) \<and> timeline_wf (removeFilter ty v s))"
proof (intro conjI impI)
  assume h: "(ident next = ident (filters s) \<longrightarrow> contents next = contents (filters s))
      \<and> contents next \<noteq> contents (filters s)"
  then have other: "ident next \<noteq> ident (filters s)" by blast
  show "currentPage (setFilters next s) = 1" "hasMore (setFilters next s)"
    "filters (setFilters next s) = next"
    by (simp_all add: setFilters_other_object [OF other])
next
  assume "timeline_wf s \<and> contents (filters (clearFilters s)) \<noteq> contents (filters s)"
  then have "currentPage (clearFilters s) = 1 \<and> hasMore (clearFilters s)"
    using clearFilters_resets by blast
  then show "currentPage (clearFilters s) = 1" "hasMore (clearFilters s)" by simp_all
next
  assume "timeline_wf s \<and> contents (filters (removeFilter ty v s)) \<noteq> contents (filters s)"
  then have "currentPage (removeFilter ty v s) = 1 \<and> hasMore (removeFilter ty v s)"
    using removeFilter_resets by blast
  then show "currentPage (removeFilter ty v s) = 1" "hasMore (removeFilter ty v s)" by simp_all
next
  show "timeline_wf initial_timeline"
    by (simp add: timeline_wf_def initial_timeline_def defaultFilters_obj_def)
next
  assume "timeline_wf s"
  then show "timeline_wf (clearFilters s)" "timeline_wf (removeFilter ty v s)"
    by (rule timeline_wf_preserved)+
qed

text \<open>
  The theorem at work, from page 3 with \<open>hasMore\<close> false. Installing a new
  configuration that differs from the default only in its date range resets the
  pagination, although the filtered list of the one asset is the same before and after.
  Removing the search \<open>cat\<close> resets it as well, and so does clearing the filters.
\<close>

theorem filters_change_resets_pagination_witness:
  "contents \<lparr> ident = 1, contents = defaultFilters\<lparr>dateRange := ''week''\<rparr> \<rparr> \<noteq> contents defaultFilters_obj
   \<and> filteredAssets sample_host [blank_asset\<lparr>title := ''Cat''\<rparr>] (defaultFilters\<lparr>dateRange := ''week''\<rparr>)
       = filteredAssets sample_host [blank_asset\<lparr>title := ''Cat''\<rparr>] defaultFilters
   \<and> currentPage (setFilters \<lparr> ident = 1, contents = defaultFilters\<lparr>dateRange := ''week''\<rparr> \<rparr>
        (initial_timeline\<lparr>currentPage := 3, hasMore := False\<rparr>)) = 1
   \<and> hasMore (setFilters \<lparr> ident = 1, contents = defaultFilters\<lparr>dateRange := ''week''\<rparr> \<rparr>
        (initial_timeline\<lparr>currentPage := 3, hasMore := False\<rparr>))
   \<and> currentPage (removeFilter ''search'' None
        (initial_timeline\<lparr>filters := \<lparr> ident = 1, contents = defaultFilters\<lparr>search := ''cat''\<rparr> \<rparr>,
           currentPage := 3, hasMore := False, next_ident := 2\<rparr>)) = 1
   \<and> hasMore (clearFilters
        (initial_timeline\<lparr>filters := \<lparr> ident = 1, contents = defaultFilters\<lparr>search := ''cat''\<rparr> \<rparr>,
           currentPage := 3, hasMore := False, next_ident := 2\<rparr>))
   \<and> timeline_wf (removeFilter ''search'' None
        (initial_timeline\<lparr>filters := \<lparr> ident = 1, contents = defaultFilters\<lparr>search := ''cat''\<rparr> \<rparr>,
           currentPage := 3, hasMore := False, next_ident := 2\<rparr>))"
proof -
  let ?week = "\<lparr> ident = 1, contents = defaultFilters\<lparr>dateRange := ''week''\<rparr> \<rparr>"
  let ?s = "initial_timeline\<lparr>currentPage := 3, hasMore := False\<rparr>"
  let ?t = "initial_timeline\<lparr>filters := \<lparr> ident = 1, contents = defaultFilters\<lparr>search := ''cat''\<rparr> \<rparr>,
           currentPage := 3, hasMore := False, next_ident := 2\<rparr>"
  have differ: "contents ?week \<noteq> contents defaultFilters_obj"
    by (simp add: defaultFilters_obj_def defaultFilters_def)
  have same_list: "filteredAssets sample_host [blank_asset\<lparr>title := ''Cat''\<rparr>] (defaultFilters\<lparr>dateRange := ''week''\<rparr>)
       = filteredAssets sample_host [blank_asset\<lparr>title := ''Cat''\<rparr>] defaultFilters"
    by (simp add: filteredAssets_def defaultFilters_def)
  have hyp1: "(ident ?week = ident (filters ?s) \<longrightarrow> contents ?week = contents (filters ?s))
      \<and> contents ?week \<noteq> contents (filters ?s)"
    by (simp add: initial_timeline_def defaultFilters_obj_def defaultFilters_def)
  have wf: "timeline_wf ?t"
    by (simp add: timeline_wf_def initial_timeline_def)
  have hyp3: "contents (filters (removeFilter ''search'' None ?t)) \<noteq> contents (filters ?t)"
    by (simp add: removeFilter_def setFilters_spread_def setFilters_def Let_def resetPagination_def
        initial_timeline_def defaultFilters_def)
  have hyp2: "contents (filters (clearFilters ?t)) \<noteq> contents (filters ?t)"
    by (simp add: clearFilters_def setFilters_def Let_def resetPagination_def
        initial_timeline_def defaultFilters_def defaultFilters_obj_def)
  note t1 = filters_change_resets_pagination [of ?week ?s]
  note t2 = filters_change_resets_pagination [of _ ?t "''search''" None]
  from t1 hyp1 have a: "currentPage (setFilters ?week ?s) = 1" "hasMore (setFilters ?week ?s)"
    by blast+
  from t2 wf hyp3 have b: "currentPage (removeFilter ''search'' None ?t) = 1"
    by blast
  from t2 wf hyp2 have c: "hasMore (clearFilters ?t)"
    by blast
  from t2 wf have d: "timeline_wf (removeFilter ''search'' None ?t)"
    by blast
  from differ same_list a b c d show ?thesis by blast
qed

section \<open>The loader: failure, success and interleavings\<close>

lemma trigger_after_success:
  "fetchedRef (hook w) \<Longrightarrow> trigger loadCollectionOnce_start w = w"
  by (simp add: trigger_def loadCollectionOnce_start_def)

lemma trigger_before_success:
  "\<not> fetchedRef (hook w) \<Longrightarrow>
   trigger loadCollectionOnce_start w =
     w\<lparr>hook := (hook w)\<lparr>isLoading := True, error := None\<rparr>,
       inFlight := Suc (inFlight w), requests := Suc (requests w)\<rparr>"
  by (simp add: trigger_def loadCollectionOnce_start_def)

lemma finish_keeps_fetched:
  "fetchedRef s \<Longrightarrow> fetchedRef (loadCollectionOnce_finish rt out s)"
  by (simp add: loadCollectionOnce_finish_def Let_def split: outcome.split)

lemma sys_step_after_success:
  assumes "fetchedRef (hook w)" and "sys_step rt ev w = Some w'"
  shows "fetchedRef (hook w') \<and> requests w' = requests w \<and> inFlight w' \<le> inFlight w"
proof (cases ev)
  case Activate
  with assms show ?thesis by (simp add: trigger_after_success)
next
  case Refetch
  with assms show ?thesis by (simp add: refetch_start_def trigger_after_success)
next
  case (Settle out)
  with assms show ?thesis by (auto simp: finish_keeps_fetched split: if_splits)
qed

lemma sys_run_after_success:
  "fetchedRef (hook w) \<Longrightarrow> sys_run rt evs w = Some w' \<Longrightarrow>
   fetchedRef (hook w') \<and> requests w' = requests w \<and> inFlight w' \<le> inFlight w"
proof (induction evs arbitrary: w)
  case Nil
  then show ?case by simp
next
  case (Cons ev evs)
  from Cons.prems(2) obtain w1 where step: "sys_step rt ev w = Some w1"
    and rest: "sys_run rt evs w1 = Some w'"
    by (auto split: option.splits)
  from sys_step_after_success [OF Cons.prems(1) step]
  have w1: "fetchedRef (hook w1)" "requests w1 = requests w" "inFlight w1 \<le> inFlight w" by simp_all
  from Cons.IH [OF w1(1) rest] w1 show ?case by simp
qed

lemma finish_rejected:
  "loadCollectionOnce_finish rt (Rejected e) s =
     s\<lparr>error := Some (case message e of Some m \<Rightarrow> m | None \<Rightarrow> ''Failed to load timeline''),
       allAssets := [], isLoading := False\<rparr>"
  by (simp add: loadCollectionOnce_finish_def nullish_def)

lemma sys_step_without_success:
  assumes "\<not> fetchedRef (hook w)" and "\<not> is_success ev" and "sys_step rt ev w = Some w'"
  shows "\<not> fetchedRef (hook w')"
proof (cases ev)
  case Activate
  with assms show ?thesis by (auto simp: trigger_before_success)
next
  case Refetch
  with assms show ?thesis by (auto simp: refetch_start_def trigger_before_success)
next
  case (Settle out)
  with assms(2) obtain e where "out = Rejected e" by (cases out) simp_all
  with Settle assms show ?thesis by (auto simp: finish_rejected split: if_splits)
qed

lemma sys_run_without_success:
  "\<not> fetchedRef (hook w) \<Longrightarrow> filter is_success evs = [] \<Longrightarrow> sys_run rt evs w = Some w' \<Longrightarrow>
   \<not> fetchedRef (hook w')"
proof (induction evs arbitrary: w)
  case Nil
  then show ?case by simp
next
  case (Cons ev evs)
  from Cons.prems(3) obtain w1 where step: "sys_step rt ev w = Some w1"
    and rest: "sys_run rt evs w1 = Some w'"
    by (auto split: option.splits)
  from Cons.prems(2) have ev: "\<not> is_success ev" and evs: "filter is_success evs = []"
    by (simp_all split: if_splits)
  from sys_step_without_success [OF Cons.prems(1) ev step] have "\<not> fetchedRef (hook w1)" .
  from Cons.IH [OF this evs rest] show ?case .
qed

text \<open>
  C5, as the specification states it, fails: a failure does not always leave a
  \<open>refetch\<close> that fetches. With two fetches in flight, the first succeeds with one
  asset and sets the flag; the second then fails, empties the list and publishes its
  error, and the flag stays set. The \<open>refetch\<close> that follows changes nothing: two
  requests have been made, not three.
\<close>

theorem late_failure_blocks_retry_counterexample:
  "sys_run sample_host
       [Activate, Refetch, Settle (Resolved [blank_asset]), Settle (Rejected (Thrown None)), Refetch]
       initial_sys
     = sys_run sample_host
       [Activate, Refetch, Settle (Resolved [blank_asset]), Settle (Rejected (Thrown None))] initial_sys
   \<and> map_option requests (sys_run sample_host
       [Activate, Refetch, Settle (Resolved [blank_asset]), Settle (Rejected (Thrown None)), Refetch]
       initial_sys) = Some 2
   \<and> map_option inFlight (sys_run sample_host
       [Activate, Refetch, Settle (Resolved [blank_asset]), Settle (Rejected (Thrown None)), Refetch]
       initial_sys) = Some 0
   \<and> map_option (allAssets \<circ> hook) (sys_run sample_host
       [Activate, Refetch, Settle (Resolved [blank_asset])] initial_sys) = Some [blank_asset]
   \<and> map_option (allAssets \<circ> hook) (sys_run sample_host
       [Activate, Refetch, Settle (Resolved [blank_asset]), Settle (Rejected (Thrown None))] initial_sys) = Some []
   \<and> map_option (error \<circ> hook) (sys_run sample_host
       [Activate, Refetch, Settle (Resolved [blank_asset]), Settle (Rejected (Thrown None))] initial_sys)
       = Some (Some ''Failed to load timeline'')
   \<and> map_option (fetchedRef \<circ> hook) (sys_run sample_host
       [Activate, Refetch, Settle (Resolved [blank_asset]), Settle (Rejected (Thrown None))] initial_sys) = Some True
   \<and> map_option (refetch_start \<circ> hook) (sys_run sample_host
       [Activate, Refetch, Settle (Resolved [blank_asset]), Settle (Rejected (Thrown None))] initial_sys) = Some None"
  by (simp add: initial_sys_def initial_loader_def trigger_def refetch_start_def
      loadCollectionOnce_start_def loadCollectionOnce_finish_def nullish_def)

text \<open>
  C5, amended. When a fetch fails, in whatever state of the loader, the loader publishes
  the empty asset list and an error message, which is the failure's message when it has
  one and \<open>Failed to load timeline\<close> otherwise; it is no longer loading, and the failure
  leaves the fetched flag as it was. So when the flag is unset, the next call of
  \<open>refetch\<close> starts a fetch again. That is the case in every interleaving of the
  mount in which no fetch has succeeded: whatever triggers and failures came before,
  a failure of a fetch in flight followed by \<open>refetch\<close> makes one more request.
\<close>

theorem failed_fetch_leaves_flag:
  "allAssets (loadCollectionOnce_finish rt (Rejected e) s) = []
   \<and> error (loadCollectionOnce_finish rt (Rejected e) s)
       = Some (case message e of Some m \<Rightarrow> m | None \<Rightarrow> ''Failed to load timeline'')
   \<and> \<not> isLoading (loadCollectionOnce_finish rt (Rejected e) s)
   \<and> fetchedRef (loadCollectionOnce_finish rt (Rejected e) s) = fetchedRef s
   \<and> (\<not> fetchedRef s \<longrightarrow>
        refetch_start (loadCollectionOnce_finish rt (Rejected e) s)
          = Some ((loadCollectionOnce_finish rt (Rejected e) s)\<lparr>isLoading := True, error := None\<rparr>))
   \<and> (sys_run rt evs initial_sys = Some w \<and> filter is_success evs = [] \<and> 0 < inFlight w \<longrightarrow>
        \<not> fetchedRef (hook w)
        \<and> map_option (allAssets \<circ> hook) (sys_step rt (Settle (Rejected e)) w) = Some []
        \<and> map_option (fetchedRef \<circ> hook) (sys_step rt (Settle (Rejected e)) w) = Some False
        \<and> map_option requests (sys_run rt [Settle (Rejected e), Refetch] w) = Some (Suc (requests w))
        \<and> map_option inFlight (sys_run rt [Settle (Rejected e), Refetch] w) = Some (inFlight w))
   \<and> map_option requests (sys_run rt [Activate, Settle (Rejected e), Refetch] initial_sys) = Some 2"
proof (intro conjI impI)
  let ?s2 = "loadCollectionOnce_finish rt (Rejected e) s"
  show "allAssets ?s2 = []" "\<not> isLoading ?s2" "fetchedRef ?s2 = fetchedRef s"
    "error ?s2 = Some (case message e of Some m \<Rightarrow> m | None \<Rightarrow> ''Failed to load timeline'')"
    by (simp_all add: finish_rejected)
  {
    assume "\<not> fetchedRef s"
    then have "\<not> fetchedRef ?s2" by (simp add: finish_rejected)
    then show "refetch_start ?s2 = Some (?s2\<lparr>isLoading := True, error := None\<rparr>)"
      by (simp add: refetch_start_def loadCollectionOnce_start_def)
  }
next
  assume h: "sys_run rt evs initial_sys = Some w \<and> filter is_success evs = [] \<and> 0 < inFlight w"
  have "\<not> fetchedRef (hook initial_sys)"
    by (simp add: initial_sys_def initial_loader_def)
  from sys_run_without_success [OF this] h show unset: "\<not> fetchedRef (hook w)"
    by blast
  from h have busy: "inFlight w \<noteq> 0" by simp
  show "map_option (allAssets \<circ> hook) (sys_step rt (Settle (Rejected e)) w) = Some []"
    using busy by (simp add: finish_rejected)
  show "map_option (fetchedRef \<circ> hook) (sys_step rt (Settle (Rejected e)) w) = Some False"
    using busy unset by (simp add: finish_rejected)
  show "map_option requests (sys_run rt [Settle (Rejected e), Refetch] w) = Some (Suc (requests w))"
    using busy unset
    by (simp add: finish_rejected refetch_start_def trigger_def loadCollectionOnce_start_def)
  show "map_option inFlight (sys_run rt [Settle (Rejected e), Refetch] w) = Some (inFlight w)"
    using busy unset
    by (simp add: finish_rejected refetch_start_def trigger_def loadCollectionOnce_start_def)
next
  show "map_option requests (sys_run rt [Activate, Settle (Rejected e), Refetch] initial_sys) = Some 2"
    by (simp add: initial_sys_def initial_loader_def trigger_def refetch_start_def
        loadCollectionOnce_start_def finish_rejected)
qed

text \<open>
  The theorem at work. A fetch that fails with the message \<open>network down\<close> on the
  loading state of the mount leaves the flag unset and \<open>refetch\<close> starts a fetch. And
  with two fetches in flight after an activation and a \<open>refetch\<close>, neither of which has
  succeeded, the failure of one followed by a \<open>refetch\<close> makes the third request.
\<close>

theorem failed_fetch_leaves_flag_witness:
  "\<not> fetchedRef (initial_loader\<lparr>isLoading := True\<rparr>)
   \<and> refetch_start (loadCollectionOnce_finish sample_host (Rejected (Thrown (Some ''network down'')))
        (initial_loader\<lparr>isLoading := True\<rparr>))
       = Some ((loadCollectionOnce_finish sample_host (Rejected (Thrown (Some ''network down'')))
        (initial_loader\<lparr>isLoading := True\<rparr>))\<lparr>isLoading := True, error := None\<rparr>)
   \<and> sys_run sample_host [Activate, Refetch] initial_sys
       = Some \<lparr> hook = initial_loader\<lparr>isLoading := True\<rparr>, inFlight = 2, requests = 2 \<rparr>
   \<and> filter is_success [Activate, Refetch] = []
   \<and> map_option requests (sys_run sample_host [Settle (Rejected (Thrown (Some ''network down''))), Refetch]
        \<lparr> hook = initial_loader\<lparr>isLoading := True\<rparr>, inFlight = 2, requests = 2 \<rparr>) = Some (Suc 2)
   \<and> map_option (allAssets \<circ> hook) (sys_step sample_host (Settle (Rejected (Thrown (Some ''network down''))))
        \<lparr> hook = initial_loader\<lparr>isLoading := True\<rparr>, inFlight = 2, requests = 2 \<rparr>) = Some []"
proof -
  let ?s = "initial_loader\<lparr>isLoading := True\<rparr>"
  let ?w = "\<lparr> hook = initial_loader\<lparr>isLoading := True\<rparr>, inFlight = 2, requests = 2 \<rparr>"
  let ?e = "Thrown (Some ''network down'')"
  have unset: "\<not> fetchedRef ?s"
    by (simp add: initial_loader_def)
  have run: "sys_run sample_host [Activate, Refetch] initial_sys = Some ?w"
    by (simp add: initial_sys_def initial_loader_def trigger_def refetch_start_def
        loadCollectionOnce_start_def)
  have none: "filter is_success [Activate, Refetch] = []" by simp
  have busy: "0 < inFlight ?w" by simp
  note t = failed_fetch_leaves_flag [of sample_host ?e ?s "[Activate, Refetch]" ?w]
  from t unset
  have a: "refetch_start (loadCollectionOnce_finish sample_host (Rejected ?e) ?s)
      = Some ((loadCollectionOnce_finish sample_host (Rejected ?e) ?s)\<lparr>isLoading := True, error := None\<rparr>)"
    by blast
  from t run none busy
  have "map_option requests (sys_run sample_host [Settle (Rejected ?e), Refetch] ?w) = Some (Suc (requests ?w))"
    by blast
  then have b: "map_option requests (sys_run sample_host [Settle (Rejected ?e), Refetch] ?w) = Some (Suc 2)"
    by simp
  from t run none busy
  have c: "map_option (allAssets \<circ> hook) (sys_step sample_host (Settle (Rejected ?e)) ?w) = Some []"
    by blast
  from unset a run none b c show ?thesis by blast
qed

text \<open>
  C6, as the specification states it, fails: after the mount's fetch has succeeded, an
  explicit \<open>refetch\<close> makes no request. The run with \<open>refetch\<close> ends in the state of
  the run without it, with one request made and none in flight.
\<close>

theorem refetch_after_success_counterexample:
  "sys_run sample_host [Activate, Settle (Resolved []), Refetch] initial_sys
     = sys_run sample_host [Activate, Settle (Resolved [])] initial_sys
   \<and> map_option requests (sys_run sample_host [Activate, Settle (Resolved []), Refetch] initial_sys) = Some 1
   \<and> map_option inFlight (sys_run sample_host [Activate, Settle (Resolved []), Refetch] initial_sys) = Some 0
   \<and> map_option (refetch_start \<circ> hook) (sys_run sample_host [Activate, Settle (Resolved [])] initial_sys)
       = Some None"
  by (simp add: initial_sys_def initial_loader_def trigger_def refetch_start_def
      loadCollectionOnce_start_def loadCollectionOnce_finish_def)

text \<open>
  C6, amended. After a successful fetch the fetched flag is set, and then every call of
  the loader is a no-op that makes no request: a re-activation of the effect and an
  explicit \<open>refetch\<close> alike, since \<open>refetch\<close> is the guarded function itself. Only
  while the flag is unset does \<open>refetch\<close> make a request.
\<close>

theorem refetch_is_guarded:
  "refetch_start = loadCollectionOnce_start
   \<and> (loadCollectionOnce_start s = Some s1 \<longrightarrow>
        fetchedRef (loadCollectionOnce_finish rt (Resolved assets) s1)
        \<and> allAssets (loadCollectionOnce_finish rt (Resolved assets) s1) = js_sort (sortAssetsDesc rt) assets)
   \<and> (fetchedRef (hook w) \<longrightarrow> sys_step rt Activate w = Some w \<and> sys_step rt Refetch w = Some w)
   \<and> (\<not> fetchedRef (hook w) \<longrightarrow>
        map_option requests (sys_step rt Refetch w) = Some (Suc (requests w)))"
proof (intro conjI impI)
  show "refetch_start = loadCollectionOnce_start"
    by (simp add: refetch_start_def)
next
  assume "loadCollectionOnce_start s = Some s1"
  show "fetchedRef (loadCollectionOnce_finish rt (Resolved assets) s1)"
    by (simp add: loadCollectionOnce_finish_def Let_def)
  show "allAssets (loadCollectionOnce_finish rt (Resolved assets) s1) = js_sort (sortAssetsDesc rt) assets"
    by (simp add: loadCollectionOnce_finish_def Let_def)
next
  assume "fetchedRef (hook w)"
  then show "sys_step rt Activate w = Some w" "sys_step rt Refetch w = Some w"
    by (simp_all add: refetch_start_def trigger_after_success)
next
  assume "\<not> fetchedRef (hook w)"
  then show "map_option requests (sys_step rt Refetch w) = Some (Suc (requests w))"
    by (simp add: refetch_start_def trigger_before_success)
qed

text \<open>
  The theorem at work on the state the first successful fetch of an empty collection
  leaves: the flag is set, and \<open>refetch\<close> and a re-activation change nothing; from the
  initial state \<open>refetch\<close> makes the first request.
\<close>

theorem refetch_is_guarded_witness:
  "fetchedRef (hook \<lparr> hook = initial_loader\<lparr>fetchedRef := True\<rparr>, inFlight = 0, requests = 1 \<rparr>)
   \<and> sys_step sample_host Refetch \<lparr> hook = initial_loader\<lparr>fetchedRef := True\<rparr>, inFlight = 0, requests = 1 \<rparr>
       = Some \<lparr> hook = initial_loader\<lparr>fetchedRef := True\<rparr>, inFlight = 0, requests = 1 \<rparr>
   \<and> sys_step sample_host Activate \<lparr> hook = initial_loader\<lparr>fetchedRef := True\<rparr>, inFlight = 0, requests = 1 \<rparr>
       = Some \<lparr> hook = initial_loader\<lparr>fetchedRef := True\<rparr>, inFlight = 0, requests = 1 \<rparr>
   \<and> fetchedRef (loadCollectionOnce_finish sample_host (Resolved [])
        (initial_loader\<lparr>isLoading := True, error := None\<rparr>))
   \<and> map_option requests (sys_step sample_host Refetch initial_sys) = Some (Suc (requests initial_sys))"
proof -
  let ?w = "\<lparr> hook = initial_loader\<lparr>fetchedRef := True\<rparr>, inFlight = 0, requests = 1 \<rparr>"
  let ?s1 = "initial_loader\<lparr>isLoading := True, error := None\<rparr>"
  have set: "fetchedRef (hook ?w)" by simp
  have unset: "\<not> fetchedRef (hook initial_sys)"
    by (simp add: initial_sys_def initial_loader_def)
  have start: "loadCollectionOnce_start initial_loader = Some ?s1"
    by (simp add: loadCollectionOnce_start_def initial_loader_def)
  note after = refetch_is_guarded [of initial_loader ?s1 sample_host "[]" ?w]
  note before = refetch_is_guarded [of initial_loader ?s1 sample_host "[]" initial_sys]
  from after set have a: "sys_step sample_host Refetch ?w = Some ?w"
    and b: "sys_step sample_host Activate ?w = Some ?w"
    by blast+
  from after start have c: "fetchedRef (loadCollectionOnce_finish sample_host (Resolved []) ?s1)"
    by blast
  from before unset
  have d: "map_option requests (sys_step sample_host Refetch initial_sys) = Some (Suc (requests initial_sys))"
    by blast
  from set a b c d show ?thesis by blast
qed

text \<open>
  C7, as the specification states it, fails: the flag is set only when a fetch has
  succeeded, so a \<open>refetch\<close> (or a second activation) that arrives while the first fetch
  is in flight starts a second one, and two fetches are in flight.
\<close>

theorem two_fetches_in_flight_counterexample:
  "map_option inFlight (sys_run sample_host [Activate, Refetch] initial_sys) = Some 2
   \<and> map_option inFlight (sys_run sample_host [Activate, Activate] initial_sys) = Some 2
   \<and> map_option (fetchedRef \<circ> hook) (sys_run sample_host [Activate] initial_sys) = Some False"
  by (simp add: initial_sys_def initial_loader_def trigger_def refetch_start_def
      loadCollectionOnce_start_def)

text \<open>Fetches in flight were requested, and every request was made by a trigger.\<close>

lemma trigger_counts:
  "inFlight w \<le> requests w \<Longrightarrow>
   inFlight (trigger start w) \<le> requests (trigger start w)
   \<and> requests (trigger start w) \<le> Suc (requests w)"
  by (simp add: trigger_def split: option.split)

lemma sys_step_counts:
  assumes "inFlight w \<le> requests w" and "sys_step rt ev w = Some w'"
  shows "inFlight w' \<le> requests w' \<and> requests w' \<le> requests w + (if is_trigger ev then 1 else 0)"
proof (cases ev)
  case Activate
  with assms trigger_counts [OF assms(1), of loadCollectionOnce_start] show ?thesis by auto
next
  case Refetch
  with assms trigger_counts [OF assms(1), of refetch_start] show ?thesis by auto
next
  case (Settle out)
  with assms show ?thesis by (auto split: if_splits)
qed

lemma sys_run_counts:
  "inFlight w \<le> requests w \<Longrightarrow> sys_run rt evs w = Some w' \<Longrightarrow>
   inFlight w' \<le> requests w' \<and> requests w' \<le> requests w + length (filter is_trigger evs)"
proof (induction evs arbitrary: w)
  case Nil
  then show ?case by simp
next
  case (Cons ev evs)
  from Cons.prems(2) obtain w1 where step: "sys_step rt ev w = Some w1"
    and rest: "sys_run rt evs w1 = Some w'"
    by (auto split: option.splits)
  from sys_step_counts [OF Cons.prems(1) step]
  have w1: "inFlight w1 \<le> requests w1" "requests w1 \<le> requests w + (if is_trigger ev then 1 else 0)"
    by simp_all
  from Cons.IH [OF w1(1) rest] w1(2) show ?case by (auto split: if_splits)
qed

text \<open>
  C7, amended. In every interleaving of triggers and settlements from the mount on: once
  a fetch has succeeded (the flag is set), every later trigger, an explicit \<open>refetch\<close>
  included, is a no-op by the flag, so that no request is made any more and the number
  of fetches in flight never grows again; while no fetch has succeeded, a trigger is
  not coalesced but starts a fetch of its own, so that the fetches in flight are bounded
  by the number of triggers, not by one.
\<close>

theorem fetches_in_flight:
  "(sys_run rt evs initial_sys = Some w \<longrightarrow>
      inFlight w \<le> requests w \<and> requests w \<le> length (filter is_trigger evs))
   \<and> (sys_run rt evs initial_sys = Some w \<and> fetchedRef (hook w) \<and> sys_run rt evs' w = Some w' \<longrightarrow>
      fetchedRef (hook w') \<and> requests w' = requests w \<and> inFlight w' \<le> inFlight w)
   \<and> (sys_run rt evs initial_sys = Some w \<and> \<not> fetchedRef (hook w) \<longrightarrow>
      map_option inFlight (sys_step rt Activate w) = Some (Suc (inFlight w))
      \<and> map_option inFlight (sys_step rt Refetch w) = Some (Suc (inFlight w)))"
proof (intro conjI impI)
  assume run: "sys_run rt evs initial_sys = Some w"
  have "inFlight initial_sys \<le> requests initial_sys" by (simp add: initial_sys_def)
  from sys_run_counts [OF this run]
  show "inFlight w \<le> requests w" "requests w \<le> length (filter is_trigger evs)"
    by (simp_all add: initial_sys_def)
next
  assume "sys_run rt evs initial_sys = Some w \<and> fetchedRef (hook w) \<and> sys_run rt evs' w = Some w'"
  then have "fetchedRef (hook w') \<and> requests w' = requests w \<and> inFlight w' \<le> inFlight w"
    using sys_run_after_success by blast
  then show "fetchedRef (hook w')" "requests w' = requests w" "inFlight w' \<le> inFlight w"
    by simp_all
next
  assume "sys_run rt evs initial_sys = Some w \<and> \<not> fetchedRef (hook w)"
  then have unset: "\<not> fetchedRef (hook w)" by simp
  then show "map_option inFlight (sys_step rt Activate w) = Some (Suc (inFlight w))"
    "map_option inFlight (sys_step rt Refetch w) = Some (Suc (inFlight w))"
    by (simp_all add: refetch_start_def trigger_before_success)
qed

text \<open>
  The theorem at work. After an activation and the success of its fetch, a run of a
  \<open>refetch\<close> and a re-activation makes no request and leaves nothing in flight. After an
  activation alone, with its fetch still in flight, a \<open>refetch\<close> brings a second fetch
  in flight.
\<close>

theorem fetches_in_flight_witness:
  "sys_run sample_host [Activate, Settle (Resolved [])] initial_sys
     = Some \<lparr> hook = initial_loader\<lparr>fetchedRef := True\<rparr>, inFlight = 0, requests = 1 \<rparr>
   \<and> sys_run sample_host [Refetch, Activate] \<lparr> hook = initial_loader\<lparr>fetchedRef := True\<rparr>, inFlight = 0, requests = 1 \<rparr>
     = Some \<lparr> hook = initial_loader\<lparr>fetchedRef := True\<rparr>, inFlight = 0, requests = 1 \<rparr>
   \<and> requests \<lparr> hook = initial_loader\<lparr>fetchedRef := True\<rparr>, inFlight = 0, requests = 1 \<rparr>
       \<le> length (filter is_trigger [Activate, Settle (Resolved [])])
   \<and> sys_run sample_host [Activate] initial_sys
     = Some \<lparr> hook = initial_loader\<lparr>isLoading := True\<rparr>, inFlight = 1, requests = 1 \<rparr>
   \<and> map_option inFlight (sys_step sample_host Refetch
        \<lparr> hook = initial_loader\<lparr>isLoading := True\<rparr>, inFlight = 1, requests = 1 \<rparr>) = Some (Suc 1)"
proof -
  let ?done = "\<lparr> hook = initial_loader\<lparr>fetchedRef := True\<rparr>, inFlight = 0, requests = 1 \<rparr>"
  let ?busy = "\<lparr> hook = initial_loader\<lparr>isLoading := True\<rparr>, inFlight = 1, requests = 1 \<rparr>"
  have run1: "sys_run sample_host [Activate, Settle (Resolved [])] initial_sys = Some ?done"
    by (simp add: initial_sys_def initial_loader_def trigger_def loadCollectionOnce_start_def
        loadCollectionOnce_finish_def)
  have run2: "sys_run sample_host [Refetch, Activate] ?done = Some ?done"
    by (simp add: initial_loader_def trigger_def refetch_start_def loadCollectionOnce_start_def)
  have run3: "sys_run sample_host [Activate] initial_sys = Some ?busy"
    by (simp add: initial_sys_def initial_loader_def trigger_def loadCollectionOnce_start_def)
  have set: "fetchedRef (hook ?done)" by simp
  have unset: "\<not> fetchedRef (hook ?busy)" by (simp add: initial_loader_def)
  note after = fetches_in_flight [of sample_host "[Activate, Settle (Resolved [])]" ?done "[Refetch, Activate]" ?done]
  note during = fetches_in_flight [of sample_host "[Activate]" ?busy]
  from after run1 have a: "requests ?done \<le> length (filter is_trigger [Activate, Settle (Resolved [])])"
    by blast
  from after run1 run2 set have "requests ?done = requests ?done \<and> inFlight ?done \<le> inFlight ?done"
    by blast
  from during run3 unset
  have "map_option inFlight (sys_step sample_host Refetch ?busy) = Some (Suc (inFlight ?busy))"
    by blast
  then have b: "map_option inFlight (sys_step sample_host Refetch ?busy) = Some (Suc 1)"
    by simp
  from run1 run2 a run3 b show ?thesis by blast
qed

section \<open>Sorting by a date that is absent\<close>

text \<open>
  C8 at three assets: \<open>z\<close> with the timestamp 2023-01-01, \<open>x\<close> with no timestamp and
  \<open>y\<close> with the timestamp 2024-01-01, in this order, sorted in the mode \<open>popular\<close>.
  The comparator of that mode does not take the absent timestamp of \<open>x\<close> as time zero:
  its result is \<open>NaN\<close> whenever \<open>x\<close> is one of the two assets, which the sort reads as
  a tie, and so it is for an asset \<open>u\<close> whose timestamp is not a date. The list is returned in the order \<open>z\<close>, \<open>x\<close>, \<open>y\<close>, with the later \<open>y\<close>
  after the earlier \<open>z\<close>. The comparator of \<open>trending\<close> does the same on an absent
  registration date. The timeline comparator, on the same assets, does take the absent
  date as time zero and orders them \<open>y\<close>, \<open>z\<close>, \<open>x\<close>; on a token identifier that
  is not a number it returns \<open>NaN\<close> as well.
\<close>

theorem popular_sort_with_absent_timestamp:
  "popularCompare sample_host
      (blank_asset\<lparr>title := ''x''\<rparr>)
      (blank_asset\<lparr>title := ''y'', timestamp := Some ''2024-01-01T00:00:00.000Z''\<rparr>) = NaN
   \<and> popularCompare sample_host
      (blank_asset\<lparr>title := ''z'', timestamp := Some ''2023-01-01T00:00:00.000Z''\<rparr>)
      (blank_asset\<lparr>title := ''x''\<rparr>) = NaN
   \<and> popularCompare sample_host
      (blank_asset\<lparr>title := ''u'', timestamp := Some ''not a date''\<rparr>)
      (blank_asset\<lparr>title := ''y'', timestamp := Some ''2024-01-01T00:00:00.000Z''\<rparr>) = NaN
   \<and> map title (filteredAssets sample_host
        [blank_asset\<lparr>title := ''z'', timestamp := Some ''2023-01-01T00:00:00.000Z''\<rparr>,
         blank_asset\<lparr>title := ''x''\<rparr>,
         blank_asset\<lparr>title := ''y'', timestamp := Some ''2024-01-01T00:00:00.000Z''\<rparr>]
        (defaultFilters\<lparr>sortBy := ''popular''\<rparr>)) = [''z'', ''x'', ''y'']
   \<and> trendingCompare sample_host
      (blank_asset\<lparr>title := ''x''\<rparr>)
      (blank_asset\<lparr>title := ''y'', registrationDate := Some ''2024-01-01T00:00:00.000Z''\<rparr>) = NaN
   \<and> sortAssetsDesc sample_host
      (blank_asset\<lparr>title := ''x''\<rparr>)
      (blank_asset\<lparr>title := ''y'', timestamp := Some ''2024-01-01T00:00:00.000Z''\<rparr>) = Num 1704067200000
   \<and> map title (js_sort (sortAssetsDesc sample_host)
        [blank_asset\<lparr>title := ''z'', timestamp := Some ''2023-01-01T00:00:00.000Z''\<rparr>,
         blank_asset\<lparr>title := ''x''\<rparr>,
         blank_asset\<lparr>title := ''y'', timestamp := Some ''2024-01-01T00:00:00.000Z''\<rparr>]) = [''y'', ''z'', ''x'']
   \<and> sortAssetsDesc sample_host
      (blank_asset\<lparr>tokenId := Some (IdStr ''abc'')\<rparr>) (blank_asset\<lparr>tokenId := Some (IdStr ''7'')\<rparr>) = NaN"
proof -
  let ?x = "blank_asset\<lparr>title := ''x''\<rparr>"
  let ?y = "blank_asset\<lparr>title := ''y'', timestamp := Some ''2024-01-01T00:00:00.000Z''\<rparr>"
  let ?z = "blank_asset\<lparr>title := ''z'', timestamp := Some ''2023-01-01T00:00:00.000Z''\<rparr>"
  have times: "new_Date_getTime sample_host (timestamp ?x) = NaN"
    "new_Date_getTime sample_host (timestamp ?y) = Num 1704067200000"
    "new_Date_getTime sample_host (timestamp ?z) = Num 1672531200000"
    by (simp_all add: new_Date_getTime_def blank_asset_def sample_host_def sample_Date_parse_def)
  have pop: "popularCompare sample_host ?x ?y = NaN" "popularCompare sample_host ?y ?x = NaN"
    "popularCompare sample_host ?x ?z = NaN" "popularCompare sample_host ?z ?x = NaN"
    "popularCompare sample_host ?z ?y = Num (1704067200000 - 1672531200000)"
    by (simp_all only: popularCompare_def times js_minus_def jsnum.case)
  have unparsable: "popularCompare sample_host
      (blank_asset\<lparr>title := ''u'', timestamp := Some ''not a date''\<rparr>) ?y = NaN"
    by (simp add: popularCompare_def new_Date_getTime_def js_minus_def blank_asset_def sample_host_def
        sample_Date_parse_def)
  have sorted_pop: "js_sort (popularCompare sample_host) [?z, ?x, ?y] = [?z, ?x, ?y]"
    by (simp add: SortCompare_def pop)
  have filtered: "filteredAssets sample_host [?z, ?x, ?y] (defaultFilters\<lparr>sortBy := ''popular''\<rparr>)
      = js_sort (popularCompare sample_host) [?z, ?x, ?y]"
    by (simp add: filteredAssets_def defaultFilters_def)
  have trend: "trendingCompare sample_host ?x
      (blank_asset\<lparr>title := ''y'', registrationDate := Some ''2024-01-01T00:00:00.000Z''\<rparr>) = NaN"
    by (simp add: trendingCompare_def new_Date_getTime_def js_minus_def blank_asset_def
        split: jsnum.split)
  have eff: "effective_time sample_host ?x = 0" "effective_time sample_host ?y = 1704067200000"
    "effective_time sample_host ?z = 1672531200000"
    by (simp_all add: effective_time_def parsed_time_def blank_asset_def sample_host_def
        sample_Date_parse_def)
  have desc: "sortAssetsDesc sample_host ?x ?y = Num 1704067200000"
    "sortAssetsDesc sample_host ?z ?x = Num (- 1672531200000)"
    "sortAssetsDesc sample_host ?z ?y = Num (1704067200000 - 1672531200000)"
    "sortAssetsDesc sample_host ?y ?x = Num (- 1704067200000)"
    by (simp_all add: sortAssetsDesc_unfolded eff)
  have sorted_desc: "js_sort (sortAssetsDesc sample_host) [?z, ?x, ?y] = [?y, ?z, ?x]"
    by (simp add: SortCompare_def desc)
  have ids: "sortAssetsDesc sample_host
      (blank_asset\<lparr>tokenId := Some (IdStr ''abc'')\<rparr>) (blank_asset\<lparr>tokenId := Some (IdStr ''7'')\<rparr>) = NaN"
    by (simp add: sortAssetsDesc_unfolded effective_time_def parsed_time_def numeric_id_def Number_def
        js_minus_def blank_asset_def sample_host_def sample_Number_def)
  show ?thesis
    unfolding filtered sorted_pop sorted_desc by (simp add: pop unparsable trend desc ids)
qed

section \<open>Date range and price range do not filter\<close>

text \<open>
  C9. For every asset list, two filter configurations that agree on the search string,
  the asset types, the licenses, the verified-only flag, the tags and the sort mode (so
  that they differ at most in date range and price range) give the same filtered and
  sorted list; in particular, setting the date range and the price range of a
  configuration to any values leaves the list unchanged.
\<close>

theorem filteredAssets_ignores_date_and_price:
  "(search f = search g \<and> assetTypes f = assetTypes g \<and> licenses f = licenses g
      \<and> verifiedOnly f = verifiedOnly g \<and> FilterState.tags f = FilterState.tags g \<and> sortBy f = sortBy g
      \<longrightarrow> filteredAssets rt assets f = filteredAssets rt assets g)
   \<and> filteredAssets rt assets (f\<lparr>dateRange := d, priceRange := p\<rparr>) = filteredAssets rt assets f"
proof (intro conjI impI)
  assume same: "search f = search g \<and> assetTypes f = assetTypes g \<and> licenses f = licenses g
      \<and> verifiedOnly f = verifiedOnly g \<and> FilterState.tags f = FilterState.tags g \<and> sortBy f = sortBy g"
  show "filteredAssets rt assets f = filteredAssets rt assets g"
    unfolding filteredAssets_def using same by simp
next
  show "filteredAssets rt assets (f\<lparr>dateRange := d, priceRange := p\<rparr>) = filteredAssets rt assets f"
    unfolding filteredAssets_def by simp
qed

text \<open>
  The theorem at work: a search for \<open>cat\<close> sorted alphabetically keeps the same two
  assets in the same order whether the date range is \<open>all\<close> and the price range 0 to
  100, or the date range is \<open>week\<close> and the price range 10 to 50.
\<close>

theorem filteredAssets_ignores_date_and_price_witness:
  "dateRange (defaultFilters\<lparr>search := ''cat'', sortBy := ''alphabetical''\<rparr>) \<noteq> ''week''
   \<and> filteredAssets sample_host
        [blank_asset\<lparr>title := ''Tomcat''\<rparr>, blank_asset\<lparr>title := ''Dog''\<rparr>, blank_asset\<lparr>title := ''Cat''\<rparr>]
        (defaultFilters\<lparr>search := ''cat'', sortBy := ''alphabetical'', dateRange := ''week'', priceRange := (10, 50)\<rparr>)
       = filteredAssets sample_host
        [blank_asset\<lparr>title := ''Tomcat''\<rparr>, blank_asset\<lparr>title := ''Dog''\<rparr>, blank_asset\<lparr>title := ''Cat''\<rparr>]
        (defaultFilters\<lparr>search := ''cat'', sortBy := ''alphabetical''\<rparr>)
   \<and> filteredAssets sample_host
        [blank_asset\<lparr>title := ''Tomcat''\<rparr>, blank_asset\<lparr>title := ''Dog''\<rparr>, blank_asset\<lparr>title := ''Cat''\<rparr>]
        (defaultFilters\<lparr>search := ''cat'', sortBy := ''alphabetical''\<rparr>)
       = [blank_asset\<lparr>title := ''Cat''\<rparr>, blank_asset\<lparr>title := ''Tomcat''\<rparr>]"
proof -
  let ?f = "defaultFilters\<lparr>search := ''cat'', sortBy := ''alphabetical''\<rparr>"
  let ?g = "defaultFilters\<lparr>search := ''cat'', sortBy := ''alphabetical'', dateRange := ''week'', priceRange := (10, 50)\<rparr>"
  let ?xs = "[blank_asset\<lparr>title := ''Tomcat''\<rparr>, blank_asset\<lparr>title := ''Dog''\<rparr>, blank_asset\<lparr>title := ''Cat''\<rparr>]"
  have differ: "dateRange ?f \<noteq> ''week''"
    by (simp add: defaultFilters_def)
  have same: "search ?g = search ?f \<and> assetTypes ?g = assetTypes ?f \<and> licenses ?g = licenses ?f
      \<and> verifiedOnly ?g = verifiedOnly ?f \<and> FilterState.tags ?g = FilterState.tags ?f \<and> sortBy ?g = sortBy ?f"
    by simp
  from filteredAssets_ignores_date_and_price [of ?g ?f sample_host ?xs] same
  have eq: "filteredAssets sample_host ?xs ?g = filteredAssets sample_host ?xs ?f"
    by blast
  have lower: "toLowerCase sample_host ''cat'' = ''cat''" "toLowerCase sample_host ''Cat'' = ''cat''"
    "toLowerCase sample_host ''Dog'' = ''dog''" "toLowerCase sample_host ''Tomcat'' = ''tomcat''"
    "toLowerCase sample_host [] = []"
    by (simp_all add: sample_host_def ascii_lower_def)
  have val: "filteredAssets sample_host ?xs ?f = [blank_asset\<lparr>title := ''Cat''\<rparr>, blank_asset\<lparr>title := ''Tomcat''\<rparr>]"
    unfolding filteredAssets_def
    by (simp add: defaultFilters_def blank_asset_def lower alphabeticalCompare_def SortCompare_def)
      (simp add: sample_host_def)
  from differ eq val show ?thesis by blast
qed

end
